theory Spec2Isabelle
  imports Main "HOL-Library.Sublist" "HOL-Library.Char_ord" "HOL-Library.List_Lexorder"
begin

section \<open>Data model (src/services/dynamodb.ts)\<close>

text \<open>
  The TypeScript interfaces \<^verbatim>\<open>Event\<close> and \<^verbatim>\<open>Registration\<close>. JavaScript numbers are
  modelled as \<^typ>\<open>int\<close>: every number that reaches the capacity arithmetic has passed
  \<^verbatim>\<open>Number.isInteger\<close>, and the model covers the range in which doubles add exactly.
  The fields \<^verbatim>\<open>id\<close> and \<^verbatim>\<open>max\<close> are renamed \<open>event_id\<close> and \<open>cap_max\<close>, since
  \<open>id\<close> and \<open>max\<close> are constants of HOL.

  Text that the code only compares, concatenates and stores (ids, keys, titles) is a
  \<^typ>\<open>string\<close>. The email and the name of an attendee are tested character by
  character (\<^verbatim>\<open>\s\<close> in the email pattern, \<^verbatim>\<open>trim\<close>), so they are kept as JavaScript has
  them: sequences of UTF-16 code units, each a number below 65536. \<open>units\<close> gives the
  code units of an ASCII text.
\<close>

type_synonym jstring = "int list"

definition units :: "string \<Rightarrow> jstring" where
  "units s = map of_char s"

record category =
  cat_id :: string
  cat_name :: string
  cat_color :: string

record capacity =
  cap_max :: int
  registered :: int

record pricing =
  individual :: int

datatype location_type = physical | online

record location =
  loc_type :: location_type
  address :: "string option"

text \<open>The attributes of an event item as stored (everything but the key).\<close>

record event_attrs =
  a_title :: string
  a_description :: string
  a_date :: string
  a_category :: category
  a_capacity :: capacity
  a_pricing :: pricing
  a_location :: location

record Event =
  event_id :: string
  title :: string
  description :: string
  date :: string
  category :: category
  capacity :: capacity
  pricing :: pricing
  location :: location

record Registration =
  registrationId :: string
  attendeeEmail :: jstring
  attendeeName :: jstring
  groupSize :: int
  registeredAt :: string

text \<open>
  \<^verbatim>\<open>ListEventsParams\<close>. The handler passes the query parameter \<^verbatim>\<open>status\<close> on with a
  type cast only, so any string can arrive. \<^verbatim>\<open>lastKey\<close> is the base64 text of the JSON
  of a table key; the model keeps the key itself.
\<close>

record ListEventsParams =
  p_category :: "string option"
  p_search :: "string option"
  p_status :: "string option"
  p_limit :: "int option"
  p_lastKey :: "(string \<times> string) option"

text \<open>The attributes of a registration item as stored; its id is part of the sort key.\<close>

record registration_attrs =
  r_attendeeEmail :: jstring
  r_attendeeName :: jstring
  r_groupSize :: int
  r_registeredAt :: string

section \<open>The table and the store client\<close>

text \<open>
  The single table holds two kinds of item. An event item has sort key \<^verbatim>\<open>METADATA\<close>
  (written by scripts/seed.ts), a registration item has sort key
  \<^verbatim>\<open>REGISTRATION#<registrationId>\<close> (written by \<^verbatim>\<open>registerForEvent\<close>). The first
  argument of both constructors is the partition key \<^verbatim>\<open>PK\<close>.
\<close>

datatype item =
    EventItem string event_attrs
  | RegistrationItem string string registration_attrs

fun PK :: "item \<Rightarrow> string" where
  "PK (EventItem pk a) = pk"
| "PK (RegistrationItem pk rid r) = pk"

fun SK :: "item \<Rightarrow> string" where
  "SK (EventItem pk a) = ''METADATA''"
| "SK (RegistrationItem pk rid r) = ''REGISTRATION#'' @ rid"

definition item_key :: "item \<Rightarrow> string \<times> string" where
  "item_key i = (PK i, SK i)"

text \<open>
  The world a request runs in: the table, in the store's own scan order, and the
  schedule of transport faults. Every \<^verbatim>\<open>client.send\<close> consumes one entry of the
  schedule; \<open>True\<close> means that this call throws a transport error and does nothing
  to the table. An empty schedule means no fault.
\<close>

record world =
  table :: "item list"
  faults :: "bool list"

datatype exn =
    Error string
  | ConditionalCheckFailedException
  | ValidationException
  | TransportError

fun message :: "exn \<Rightarrow> string" where
  "message (Error m) = m"
| "message ConditionalCheckFailedException = ''The conditional request failed''"
| "message ValidationException = ''One or more parameter values were invalid''"
| "message TransportError = ''transport error''"

definition next_fault :: "world \<Rightarrow> bool \<times> world" where
  "next_fault w = (case faults w of [] \<Rightarrow> (False, w) | f # fs \<Rightarrow> (f, w\<lparr>faults := fs\<rparr>))"

subsection \<open>GetItem\<close>

definition lookup_item :: "item list \<Rightarrow> string \<times> string \<Rightarrow> item option" where
  "lookup_item tbl k = find (\<lambda>i. item_key i = k) tbl"

definition send_GetItem :: "string \<times> string \<Rightarrow> world \<Rightarrow> (exn + item option) \<times> world" where
  "send_GetItem k w =
     (case next_fault w of
        (True, w') \<Rightarrow> (Inl TransportError, w')
      | (False, w') \<Rightarrow> (Inr (lookup_item (table w') k), w'))"

subsection \<open>PutItem\<close>

text \<open>PutItem without a condition: an item with the same key is replaced.\<close>

fun put_item :: "item \<Rightarrow> item list \<Rightarrow> item list" where
  "put_item x [] = [x]"
| "put_item x (i # is) = (if item_key i = item_key x then x # is else i # put_item x is)"

definition send_PutItem :: "item \<Rightarrow> world \<Rightarrow> (exn + unit) \<times> world" where
  "send_PutItem x w =
     (case next_fault w of
        (True, w') \<Rightarrow> (Inl TransportError, w')
      | (False, w') \<Rightarrow> (Inr (), w'\<lparr>table := put_item x (table w')\<rparr>))"

subsection \<open>UpdateItem with a condition on capacity.registered\<close>

text \<open>
  \<^verbatim>\<open>SET capacity.registered = :newRegistered\<close> under the condition
  \<^verbatim>\<open>capacity.registered = :currentRegistered\<close>, on the item with the given key. The
  condition is false when the item is missing or has no such attribute. With
  \<^verbatim>\<open>ReturnValues: ALL_NEW\<close> the attributes after the update are returned.
\<close>

fun update_registered :: "string \<times> string \<Rightarrow> int \<Rightarrow> int \<Rightarrow> item list \<Rightarrow> (event_attrs \<times> item list) option" where
  "update_registered k cur new [] = None"
| "update_registered k cur new (i # is) =
     (if item_key i = k then
        (case i of
           EventItem pk a \<Rightarrow>
             (if registered (a_capacity a) = cur
              then (let a' = a\<lparr>a_capacity := (a_capacity a)\<lparr>registered := new\<rparr>\<rparr>
                    in Some (a', EventItem pk a' # is))
              else None)
         | RegistrationItem pk rid r \<Rightarrow> None)
      else (case update_registered k cur new is of
              None \<Rightarrow> None
            | Some (a', is') \<Rightarrow> Some (a', i # is')))"

definition send_UpdateItem :: "string \<times> string \<Rightarrow> int \<Rightarrow> int \<Rightarrow> world \<Rightarrow> (exn + event_attrs) \<times> world" where
  "send_UpdateItem k cur new w =
     (case next_fault w of
        (True, w') \<Rightarrow> (Inl TransportError, w')
      | (False, w') \<Rightarrow>
          (case update_registered k cur new (table w') of
             None \<Rightarrow> (Inl ConditionalCheckFailedException, w')
           | Some (a', tbl') \<Rightarrow> (Inr a', w'\<lparr>table := tbl'\<rparr>)))"

subsection \<open>Query\<close>

text \<open>
  \<^verbatim>\<open>PK = :pk AND begins_with(SK, :sk)\<close>, in sort-key order. \<^verbatim>\<open>Limit\<close> bounds the items
  that are evaluated; the filter expression is applied to those afterwards.
\<close>

definition filter_email :: "jstring \<Rightarrow> item \<Rightarrow> bool" where
  "filter_email email i =
     (case i of EventItem pk a \<Rightarrow> False | RegistrationItem pk rid r \<Rightarrow> r_attendeeEmail r = email)"

definition query_items :: "string \<Rightarrow> string \<Rightarrow> (item \<Rightarrow> bool) \<Rightarrow> nat \<Rightarrow> item list \<Rightarrow> item list" where
  "query_items pk sk flt lim tbl =
     filter flt (take lim (sort_key SK (filter (\<lambda>i. PK i = pk \<and> prefix sk (SK i)) tbl)))"

definition send_Query :: "string \<Rightarrow> string \<Rightarrow> (item \<Rightarrow> bool) \<Rightarrow> nat \<Rightarrow> world \<Rightarrow> (exn + item list) \<times> world" where
  "send_Query pk sk flt lim w =
     (case next_fault w of
        (True, w') \<Rightarrow> (Inl TransportError, w')
      | (False, w') \<Rightarrow> (Inr (query_items pk sk flt lim (table w')), w'))"

subsection \<open>Scan\<close>

text \<open>
  The only scan of the code has the filter expression \<^verbatim>\<open>SK = :metadata\<close>, so the model
  builds it in and a scan returns event items only, as pairs of partition key and
  attributes. A scan walks the table in the store's order from just after
  \<^verbatim>\<open>ExclusiveStartKey\<close>, evaluates at most \<^verbatim>\<open>Limit\<close> items and filters them afterwards.
  It reports \<^verbatim>\<open>LastEvaluatedKey\<close> when it stopped at the limit, and none when it reached
  the end of the table first. A limit below 1 is refused by the store. A start key
  that is not in the table is modelled as the end of the table; the size bound of one
  scan page is not modelled.
\<close>

record scan_output =
  Items :: "(string \<times> event_attrs) list"
  LastEvaluatedKey :: "(string \<times> string) option"

definition after_key :: "(string \<times> string) option \<Rightarrow> item list \<Rightarrow> item list" where
  "after_key start tbl =
     (case start of
        None \<Rightarrow> tbl
      | Some k \<Rightarrow> (case dropWhile (\<lambda>i. item_key i \<noteq> k) tbl of [] \<Rightarrow> [] | i # rest \<Rightarrow> rest))"

fun metadata_items :: "item list \<Rightarrow> (string \<times> event_attrs) list" where
  "metadata_items [] = []"
| "metadata_items (EventItem pk a # is) = (pk, a) # metadata_items is"
| "metadata_items (RegistrationItem pk rid r # is) = metadata_items is"

definition scan_metadata :: "int \<Rightarrow> (string \<times> string) option \<Rightarrow> item list \<Rightarrow> scan_output" where
  "scan_metadata lim start tbl =
     (let evaluated = take (nat lim) (after_key start tbl)
      in \<lparr>Items = metadata_items evaluated,
          LastEvaluatedKey =
            (if int (length evaluated) = lim then Some (item_key (last evaluated)) else None)\<rparr>)"

definition send_Scan :: "int \<Rightarrow> (string \<times> string) option \<Rightarrow> world \<Rightarrow> (exn + scan_output) \<times> world" where
  "send_Scan lim start w =
     (case next_fault w of
        (True, w') \<Rightarrow> (Inl TransportError, w')
      | (False, w') \<Rightarrow>
          (if lim < 1 then (Inl ValidationException, w')
           else (Inr (scan_metadata lim start (table w')), w')))"

section \<open>JavaScript helpers\<close>

text \<open>Strings are byte strings here; \<^verbatim>\<open>toLowerCase\<close> is modelled on the ASCII letters.\<close>

definition toLowerCase_char :: "char \<Rightarrow> char" where
  "toLowerCase_char c =
     (if CHR ''A'' \<le> c \<and> c \<le> CHR ''Z'' then char_of (of_char c + (32::nat)) else c)"

definition toLowerCase :: "string \<Rightarrow> string" where
  "toLowerCase s = map toLowerCase_char s"

text \<open>\<^verbatim>\<open>s.includes(pat)\<close>: \<open>pat\<close> occurs in \<open>s\<close> as a contiguous substring.\<close>

fun js_includes :: "string \<Rightarrow> string \<Rightarrow> bool" where
  "js_includes [] pat = (pat = [])"
| "js_includes (c # cs) pat = (prefix pat (c # cs) \<or> js_includes cs pat)"

text \<open>\<^verbatim>\<open>s.replace(pat, rep)\<close> with a string pattern: the first occurrence only.\<close>

fun replace_first :: "string \<Rightarrow> string \<Rightarrow> string \<Rightarrow> string" where
  "replace_first pat rep [] = (if pat = [] then rep else [])"
| "replace_first pat rep (c # cs) =
     (if prefix pat (c # cs) then rep @ drop (length pat) (c # cs)
      else c # replace_first pat rep cs)"

text \<open>\<^verbatim>\<open>xs.slice(0, n)\<close>: a negative \<open>n\<close> counts from the end.\<close>

definition slice0 :: "'a list \<Rightarrow> int \<Rightarrow> 'a list" where
  "slice0 xs n = (if 0 \<le> n then take (nat n) xs else take (nat (int (length xs) + n)) xs)"

section \<open>Event catalog: listEvents and getEvent\<close>

record list_result =
  events :: "Event list"
  total :: int
  lastKey :: "(string \<times> string) option"

text \<open>The callback of \<^verbatim>\<open>result.Items.map\<close> (lines 69 to 81).\<close>

definition unmarshall_listed :: "string \<times> event_attrs \<Rightarrow> Event" where
  "unmarshall_listed pa =
     (case pa of (pk, a) \<Rightarrow>
        \<lparr>event_id = replace_first ''EVENT#'' [] pk,
         title = a_title a, description = a_description a, date = a_date a,
         category = a_category a, capacity = a_capacity a, pricing = a_pricing a,
         location = a_location a\<rparr>)"

text \<open>\<^verbatim>\<open>if (params.category)\<close> and the like: an absent or empty string is falsy.\<close>

definition truthy_string :: "'a list option \<Rightarrow> bool" where
  "truthy_string so = (case so of None \<Rightarrow> False | Some s \<Rightarrow> s \<noteq> [])"

definition filter_category :: "ListEventsParams \<Rightarrow> Event list \<Rightarrow> Event list" where
  "filter_category params evs =
     (if truthy_string (p_category params)
      then filter (\<lambda>e. cat_id (category e) = the (p_category params)) evs
      else evs)"

definition filter_search :: "ListEventsParams \<Rightarrow> Event list \<Rightarrow> Event list" where
  "filter_search params evs =
     (if truthy_string (p_search params)
      then (let searchLower = toLowerCase (the (p_search params))
            in filter (\<lambda>e. js_includes (toLowerCase (title e)) searchLower \<or>
                           js_includes (toLowerCase (description e)) searchLower) evs)
      else evs)"

definition filter_status :: "ListEventsParams \<Rightarrow> Event list \<Rightarrow> Event list" where
  "filter_status params evs =
     (if truthy_string (p_status params) then
        (if the (p_status params) = ''available''
         then filter (\<lambda>e. registered (capacity e) < cap_max (capacity e)) evs
         else if the (p_status params) = ''full''
         then filter (\<lambda>e. registered (capacity e) \<ge> cap_max (capacity e)) evs
         else evs)
      else evs)"

text \<open>
  \<^verbatim>\<open>Math.min(params.limit || 25, 100)\<close>: an absent limit and the limit 0 give 25 (and so
  does \<^verbatim>\<open>NaN\<close>, which the model does not tell from an absent limit).
\<close>

definition effective_limit :: "ListEventsParams \<Rightarrow> int" where
  "effective_limit params =
     min (case p_limit params of None \<Rightarrow> 25 | Some l \<Rightarrow> if l = 0 then 25 else l) 100"

text \<open>
  Lines 69 to 115 of \<^verbatim>\<open>listEvents\<close>: what is returned for a given answer of the scan.
\<close>

definition list_page :: "ListEventsParams \<Rightarrow> scan_output \<Rightarrow> list_result" where
  "list_page params result =
     (let limit = effective_limit params;
          evs = filter_status params
                  (filter_search params
                     (filter_category params (map unmarshall_listed (Items result))));
          limitedEvents = slice0 evs limit;
          hasMore = (int (length evs) > limit \<or> LastEvaluatedKey result \<noteq> None)
      in \<lparr>events = limitedEvents,
          total = int (length limitedEvents),
          lastKey = (if hasMore \<and> LastEvaluatedKey result \<noteq> None
                     then LastEvaluatedKey result else None)\<rparr>)"

definition listEvents :: "ListEventsParams \<Rightarrow> world \<Rightarrow> (exn + list_result) \<times> world" where
  "listEvents params w =
     (let limit = effective_limit params
      in case send_Scan (limit * 2) (p_lastKey params) w of
           (Inl e, w') \<Rightarrow> (Inl e, w')
         | (Inr result, w') \<Rightarrow> (Inr (list_page params result), w'))"

definition getEvent :: "string \<Rightarrow> world \<Rightarrow> (exn + Event option) \<times> world" where
  "getEvent eventId w =
     (case send_GetItem (''EVENT#'' @ eventId, ''METADATA'') w of
        (Inl e, w') \<Rightarrow> (Inl e, w')
      | (Inr None, w') \<Rightarrow> (Inr None, w')
      | (Inr (Some (RegistrationItem pk rid r)), w') \<Rightarrow> (Inr None, w')
      | (Inr (Some (EventItem pk a)), w') \<Rightarrow>
          (Inr (Some \<lparr>event_id = eventId,
                      title = a_title a, description = a_description a, date = a_date a,
                      category = a_category a, capacity = a_capacity a,
                      pricing = a_pricing a, location = a_location a\<rparr>), w'))"

section \<open>Registration engine (src/services/dynamodb.ts)\<close>

text \<open>
  \<^verbatim>\<open>checkDuplicateRegistration\<close>: one query over the registration items of the event with
  \<^verbatim>\<open>Limit: 1\<close> and the filter expression \<^verbatim>\<open>attendeeEmail = :email\<close>.
\<close>

definition checkDuplicateRegistration :: "string \<Rightarrow> jstring \<Rightarrow> world \<Rightarrow> (exn + bool) \<times> world" where
  "checkDuplicateRegistration eventId email w =
     (case send_Query (''EVENT#'' @ eventId) ''REGISTRATION#'' (filter_email email) 1 w of
        (Inl e, w') \<Rightarrow> (Inl e, w')
      | (Inr result_items, w') \<Rightarrow> (Inr (length result_items > 0), w'))"

text \<open>
  What \<^verbatim>\<open>Date.now()\<close>, \<^verbatim>\<open>Math.random()\<close> and \<^verbatim>\<open>new Date().toISOString()\<close> give to one
  call of \<^verbatim>\<open>registerForEvent\<close>: the registration id and the timestamp.
\<close>

record env =
  env_registrationId :: string
  env_registeredAt :: string

definition registerForEvent ::
    "env \<Rightarrow> string \<Rightarrow> jstring \<Rightarrow> jstring \<Rightarrow> int \<Rightarrow> world \<Rightarrow> (exn + Registration \<times> Event) \<times> world" where
  "registerForEvent en eventId email name gs w =
     (let registrationId = env_registrationId en;
          registeredAt = env_registeredAt en
      in case getEvent eventId w of
           (Inl e, w1) \<Rightarrow> (Inl e, w1)
         | (Inr None, w1) \<Rightarrow> (Inl (Error ''EVENT_NOT_FOUND''), w1)
         | (Inr (Some event), w1) \<Rightarrow>
             (let newRegistered = registered (capacity event) + gs
              in if newRegistered > cap_max (capacity event)
                 then (Inl (Error ''INSUFFICIENT_CAPACITY''), w1)
                 else
                   (case send_UpdateItem (''EVENT#'' @ eventId, ''METADATA'')
                           (registered (capacity event)) newRegistered w1 of
                      (Inl e, w2) \<Rightarrow>
                        (if e = ConditionalCheckFailedException
                         then (Inl (Error ''INSUFFICIENT_CAPACITY''), w2)
                         else (Inl e, w2))
                    | (Inr updatedEvent, w2) \<Rightarrow>
                        (case send_PutItem
                                (RegistrationItem (''EVENT#'' @ eventId) registrationId
                                   \<lparr>r_attendeeEmail = email, r_attendeeName = name,
                                    r_groupSize = gs, r_registeredAt = registeredAt\<rparr>) w2 of
                           (Inl e, w3) \<Rightarrow> (Inl e, w3)
                         | (Inr u, w3) \<Rightarrow>
                             (Inr (\<lparr>registrationId = registrationId, attendeeEmail = email,
                                    attendeeName = name, groupSize = gs,
                                    registeredAt = registeredAt\<rparr>,
                                   \<lparr>event_id = eventId,
                                    title = a_title updatedEvent,
                                    description = a_description updatedEvent,
                                    date = a_date updatedEvent,
                                    category = a_category updatedEvent,
                                    capacity = a_capacity updatedEvent,
                                    pricing = a_pricing updatedEvent,
                                    location = a_location updatedEvent\<rparr>), w3)))))"

section \<open>Request handler (src/handlers/events.ts)\<close>

text \<open>
  The parsed request. A field of the JSON body is a JavaScript value; the model keeps
  what the handler looks at: its type, its truthiness, the string and the integer.
  \<^verbatim>\<open>attendeeEmail\<close> is taken to be a string when present, as the code assumes without
  checking. \<open>JsonNull\<close> is the body \<^verbatim>\<open>null\<close>, whose destructuring throws; a JSON
  value that is no object destructures to absent fields, like the empty object.
\<close>

datatype jsval = JNull | JBool bool | JInt int | JNonInteger | JString jstring | JObject

record register_body =
  b_attendeeEmail :: "jstring option"
  b_attendeeName :: "jsval option"
  b_groupSize :: "jsval option"

datatype parsed_body = InvalidJson | JsonNull | JsonBody register_body

record register_request =
  path_id :: "string option"
  body :: parsed_body

record attendee =
  att_email :: jstring
  att_name :: jstring
  att_groupSize :: int
  att_registeredAt :: string

datatype response_body =
    RegisterSuccess string Event attendee
  | ErrorBody string string

record response =
  statusCode :: int
  response_body :: response_body

definition successResponse :: "response_body \<Rightarrow> response" where
  "successResponse d = \<lparr>statusCode = 200, response_body = d\<rparr>"

definition errorResponse :: "int \<Rightarrow> string \<Rightarrow> string \<Rightarrow> response" where
  "errorResponse code err msg = \<lparr>statusCode = code, response_body = ErrorBody err msg\<rparr>"

text \<open>The machine-readable error code of a response, if it is an error.\<close>

definition error_of :: "response \<Rightarrow> string option" where
  "error_of r = (case response_body r of ErrorBody err msg \<Rightarrow> Some err | RegisterSuccess i e a \<Rightarrow> None)"

subsection \<open>The email pattern\<close>

text \<open>
  A pattern is a sequence of atoms: a literal character, or one or more characters of
  a class. \<open>matches\<close> is \<^verbatim>\<open>RegExp.test\<close> for an anchored pattern of this shape, with
  backtracking over the length of each repetition. The pattern has no \<^verbatim>\<open>u\<close> flag, so a
  character is one code unit.
\<close>

datatype atom = Lit int | OneOrMore "int \<Rightarrow> bool"

fun matches :: "atom list \<Rightarrow> jstring \<Rightarrow> bool" where
  "matches [] s = (s = [])"
| "matches (Lit c # as) s = (case s of [] \<Rightarrow> False | x # xs \<Rightarrow> x = c \<and> matches as xs)"
| "matches (OneOrMore p # as) s =
     list_ex (\<lambda>n. list_all p (take n s) \<and> matches as (drop n s)) [1 ..< Suc (length s)]"

text \<open>
  The code units that \<^verbatim>\<open>\s\<close> matches and that \<^verbatim>\<open>trim\<close> removes: the white space and the line
  terminators of ECMAScript. These are tab, line feed, vertical tab, form feed,
  carriage return and space; the no-break space U+00A0; U+1680; U+2000 to U+200A; the
  line and paragraph separators U+2028 and U+2029; U+202F, U+205F, U+3000; and the
  byte order mark U+FEFF.
\<close>

definition is_space :: "int \<Rightarrow> bool" where
  "is_space c =
     (c \<in> set [0x09, 0x0A, 0x0B, 0x0C, 0x0D, 0x20, 0xA0, 0x1680, 0x2028, 0x2029, 0x202F,
                0x205F, 0x3000, 0xFEFF] \<or>
      (0x2000 \<le> c \<and> c \<le> 0x200A))"

definition not_space_at :: "int \<Rightarrow> bool" where
  "not_space_at c = (\<not> is_space c \<and> c \<noteq> of_char CHR ''@'')"

definition emailRegex :: "atom list" where
  "emailRegex = [OneOrMore not_space_at, Lit (of_char CHR ''@''), OneOrMore not_space_at,
                 Lit (of_char CHR ''.''), OneOrMore not_space_at]"

definition validateEmail :: "jstring \<Rightarrow> bool" where
  "validateEmail email = matches emailRegex email"

definition trim :: "jstring \<Rightarrow> jstring" where
  "trim s = rev (dropWhile is_space (rev (dropWhile is_space s)))"

fun truthy :: "jsval option \<Rightarrow> bool" where
  "truthy None = False"
| "truthy (Some JNull) = False"
| "truthy (Some (JBool b)) = b"
| "truthy (Some (JInt n)) = (n \<noteq> 0)"
| "truthy (Some JNonInteger) = True"
| "truthy (Some (JString s)) = (s \<noteq> [])"
| "truthy (Some JObject) = True"

subsection \<open>registerEventHandler\<close>

text \<open>
  Lines 97 to 151: everything the handler decides before it touches the store. The
  result is either the response it returns at once or the checked arguments.
\<close>

definition validate_request :: "register_request \<Rightarrow> response + (string \<times> jstring \<times> jstring \<times> int)" where
  "validate_request req =
     (if \<not> truthy_string (path_id req)
      then Inl (errorResponse 400 ''INVALID_REQUEST'' ''Event ID is required'')
      else
        (case body req of
           InvalidJson \<Rightarrow> Inl (errorResponse 400 ''INVALID_REQUEST'' ''Invalid JSON in request body'')
         | JsonNull \<Rightarrow> Inl (errorResponse 500 ''INTERNAL_ERROR'' ''Failed to register for event'')
         | JsonBody b \<Rightarrow>
             (let gsv = (case b_groupSize b of None \<Rightarrow> JInt 1 | Some v \<Rightarrow> v)
              in if \<not> truthy_string (b_attendeeEmail b) \<or> \<not> truthy (b_attendeeName b)
                 then Inl (errorResponse 400 ''INVALID_REQUEST''
                             ''Missing required fields: attendeeEmail, attendeeName'')
                 else if \<not> validateEmail (the (b_attendeeEmail b))
                 then Inl (errorResponse 400 ''INVALID_EMAIL'' ''Please provide a valid email address'')
                 else
                   (case b_attendeeName b of
                      Some (JString name) \<Rightarrow>
                        (if length (trim name) = 0
                         then Inl (errorResponse 400 ''INVALID_REQUEST''
                                     ''Attendee name must be a non-empty string'')
                         else
                           (case gsv of
                              JInt gs \<Rightarrow>
                                (if gs < 1
                                 then Inl (errorResponse 400 ''INVALID_REQUEST''
                                             ''Group size must be a positive integer'')
                                 else Inr (the (path_id req), the (b_attendeeEmail b), name, gs))
                            | _ \<Rightarrow> Inl (errorResponse 400 ''INVALID_REQUEST''
                                           ''Group size must be a positive integer'')))
                    | _ \<Rightarrow> Inl (errorResponse 400 ''INVALID_REQUEST''
                                   ''Attendee name must be a non-empty string'')))))"

text \<open>
  Lines 178 to 207: the call of \<^verbatim>\<open>registerForEvent\<close> and the inner \<^verbatim>\<open>catch\<close>, followed by
  the outer \<^verbatim>\<open>catch\<close> of the handler for what the inner one throws again.
\<close>

definition internal_error :: response where
  "internal_error = errorResponse 500 ''INTERNAL_ERROR'' ''Failed to register for event''"

definition register_response :: "exn + Registration \<times> Event \<Rightarrow> response" where
  "register_response res =
     (case res of
        Inr (reg, ev) \<Rightarrow>
          successResponse
            (RegisterSuccess (registrationId reg) ev
               \<lparr>att_email = attendeeEmail reg, att_name = attendeeName reg,
                att_groupSize = groupSize reg, att_registeredAt = registeredAt reg\<rparr>)
      | Inl e \<Rightarrow>
          (if message e = ''INSUFFICIENT_CAPACITY''
           then errorResponse 400 ''INSUFFICIENT_CAPACITY'' ''Not enough spots available for group size''
           else internal_error))"

definition registerEventHandler :: "env \<Rightarrow> register_request \<Rightarrow> world \<Rightarrow> response \<times> world" where
  "registerEventHandler en req w =
     (case validate_request req of
        Inl r \<Rightarrow> (r, w)
      | Inr (eventId, email, name, gs) \<Rightarrow>
          (case getEvent eventId w of
             (Inl e, w1) \<Rightarrow> (internal_error, w1)
           | (Inr None, w1) \<Rightarrow> (errorResponse 404 ''EVENT_NOT_FOUND'' ''Event not found'', w1)
           | (Inr (Some existingEvent), w1) \<Rightarrow>
               (case checkDuplicateRegistration eventId email w1 of
                  (Inl e, w2) \<Rightarrow> (internal_error, w2)
                | (Inr isDuplicate, w2) \<Rightarrow>
                    (if isDuplicate
                     then (errorResponse 400 ''DUPLICATE_REGISTRATION''
                             ''This email is already registered for this event'', w2)
                     else if registered (capacity existingEvent) \<ge> cap_max (capacity existingEvent)
                     then (errorResponse 400 ''EVENT_FULL'' ''Event has reached maximum capacity'', w2)
                     else
                       (case registerForEvent en eventId email name gs w2 of
                          (res, w3) \<Rightarrow> (register_response res, w3))))))"

section \<open>One request as a sequence of store operations\<close>

text \<open>
  The handler is asynchronous: it gives up control at every \<^verbatim>\<open>await client.send\<close>, and
  other requests run in between. A request in flight is a control point with the
  local variables that are live there; one step runs the code up to and including the
  next store operation. The control points are those of \<^verbatim>\<open>registerEventHandler\<close> and,
  inlined, of \<^verbatim>\<open>registerForEvent\<close>:
  \<^item> \<open>Validating\<close>: nothing has run yet; the step validates the request and sends the
    first \<^verbatim>\<open>getEvent\<close> (handler, line 154);
  \<^item> \<open>DuplicateChecking\<close>: holds \<^verbatim>\<open>existingEvent\<close>; the step sends the query of
    \<^verbatim>\<open>checkDuplicateRegistration\<close> and tests for a full event;
  \<^item> \<open>CapacityReading\<close>: inside \<^verbatim>\<open>registerForEvent\<close>; the step sends its \<^verbatim>\<open>getEvent\<close> and
    computes \<^verbatim>\<open>newRegistered\<close>;
  \<^item> \<open>CapacityReserving\<close>: holds \<^verbatim>\<open>event\<close> and \<^verbatim>\<open>newRegistered\<close>; the step sends the
    conditional update;
  \<^item> \<open>RegistrationRecording\<close>: holds \<^verbatim>\<open>updatedEvent\<close>; the step puts the registration;
  \<^item> \<open>Finished\<close>: the response has been returned.
\<close>

type_synonym args = "string \<times> jstring \<times> jstring \<times> int"

datatype pc =
    Validating
  | DuplicateChecking args Event
  | CapacityReading args
  | CapacityReserving args Event int
  | RegistrationRecording args event_attrs
  | Finished response

fun proc_step :: "env \<Rightarrow> register_request \<Rightarrow> pc \<Rightarrow> world \<Rightarrow> pc \<times> world" where
  "proc_step en req Validating w =
     (case validate_request req of
        Inl r \<Rightarrow> (Finished r, w)
      | Inr (eventId, email, name, gs) \<Rightarrow>
          (case getEvent eventId w of
             (Inl e, w1) \<Rightarrow> (Finished internal_error, w1)
           | (Inr None, w1) \<Rightarrow>
               (Finished (errorResponse 404 ''EVENT_NOT_FOUND'' ''Event not found''), w1)
           | (Inr (Some existingEvent), w1) \<Rightarrow>
               (DuplicateChecking (eventId, email, name, gs) existingEvent, w1)))"
| "proc_step en req (DuplicateChecking (eventId, email, name, gs) existingEvent) w =
     (case checkDuplicateRegistration eventId email w of
        (Inl e, w2) \<Rightarrow> (Finished internal_error, w2)
      | (Inr isDuplicate, w2) \<Rightarrow>
          (if isDuplicate
           then (Finished (errorResponse 400 ''DUPLICATE_REGISTRATION''
                             ''This email is already registered for this event''), w2)
           else if registered (capacity existingEvent) \<ge> cap_max (capacity existingEvent)
           then (Finished (errorResponse 400 ''EVENT_FULL''
                             ''Event has reached maximum capacity''), w2)
           else (CapacityReading (eventId, email, name, gs), w2)))"
| "proc_step en req (CapacityReading (eventId, email, name, gs)) w =
     (case getEvent eventId w of
        (Inl e, w1) \<Rightarrow> (Finished (register_response (Inl e)), w1)
      | (Inr None, w1) \<Rightarrow> (Finished (register_response (Inl (Error ''EVENT_NOT_FOUND''))), w1)
      | (Inr (Some event), w1) \<Rightarrow>
          (let newRegistered = registered (capacity event) + gs
           in if newRegistered > cap_max (capacity event)
              then (Finished (register_response (Inl (Error ''INSUFFICIENT_CAPACITY''))), w1)
              else (CapacityReserving (eventId, email, name, gs) event newRegistered, w1)))"
| "proc_step en req (CapacityReserving (eventId, email, name, gs) event newRegistered) w =
     (case send_UpdateItem (''EVENT#'' @ eventId, ''METADATA'')
             (registered (capacity event)) newRegistered w of
        (Inl e, w2) \<Rightarrow>
          (if e = ConditionalCheckFailedException
           then (Finished (register_response (Inl (Error ''INSUFFICIENT_CAPACITY''))), w2)
           else (Finished (register_response (Inl e)), w2))
      | (Inr updatedEvent, w2) \<Rightarrow>
          (RegistrationRecording (eventId, email, name, gs) updatedEvent, w2))"
| "proc_step en req (RegistrationRecording (eventId, email, name, gs) updatedEvent) w =
     (case send_PutItem
             (RegistrationItem (''EVENT#'' @ eventId) (env_registrationId en)
                \<lparr>r_attendeeEmail = email, r_attendeeName = name,
                 r_groupSize = gs, r_registeredAt = env_registeredAt en\<rparr>) w of
        (Inl e, w3) \<Rightarrow> (Finished (register_response (Inl e)), w3)
      | (Inr u, w3) \<Rightarrow>
          (Finished
             (register_response
                (Inr (\<lparr>registrationId = env_registrationId en, attendeeEmail = email,
                       attendeeName = name, groupSize = gs,
                       registeredAt = env_registeredAt en\<rparr>,
                      \<lparr>event_id = eventId,
                       title = a_title updatedEvent,
                       description = a_description updatedEvent,
                       date = a_date updatedEvent,
                       category = a_category updatedEvent,
                       capacity = a_capacity updatedEvent,
                       pricing = a_pricing updatedEvent,
                       location = a_location updatedEvent\<rparr>))), w3))"
| "proc_step en req (Finished r) w = (Finished r, w)"

text \<open>Running one request alone: five steps reach \<open>Finished\<close> from \<open>Validating\<close>.\<close>

definition run_alone :: "env \<Rightarrow> register_request \<Rightarrow> world \<Rightarrow> pc \<times> world" where
  "run_alone en req w =
     (case proc_step en req Validating w of (p1, w1) \<Rightarrow>
      case proc_step en req p1 w1 of (p2, w2) \<Rightarrow>
      case proc_step en req p2 w2 of (p3, w3) \<Rightarrow>
      case proc_step en req p3 w3 of (p4, w4) \<Rightarrow>
      proc_step en req p4 w4)"

section \<open>Concurrent requests\<close>

text \<open>
  The system: the world and the requests in flight, each with what the clock and the
  random generator give it. A schedule is a list of indices; each entry lets that
  request take its next step. All interleavings of the store operations of the
  requests are the runs over all schedules.
\<close>

record system =
  sys_world :: world
  procs :: "(env \<times> register_request \<times> pc) list"

definition sys_step :: "nat \<Rightarrow> system \<Rightarrow> system" where
  "sys_step i s =
     (if i < length (procs s) then
        (case procs s ! i of (en, req, p) \<Rightarrow>
           (case proc_step en req p (sys_world s) of (p', w') \<Rightarrow>
              \<lparr>sys_world = w', procs = (procs s)[i := (en, req, p')]\<rparr>))
      else s)"

fun run_schedule :: "nat list \<Rightarrow> system \<Rightarrow> system" where
  "run_schedule [] s = s"
| "run_schedule (i # sched) s = run_schedule sched (sys_step i s)"

definition initial :: "world \<Rightarrow> (env \<times> register_request) list \<Rightarrow> system" where
  "initial w reqs = \<lparr>sys_world = w, procs = map (\<lambda>(en, req). (en, req, Validating)) reqs\<rparr>"

text \<open>No event of the table is oversold.\<close>

fun item_capacity_ok :: "item \<Rightarrow> bool" where
  "item_capacity_ok (EventItem pk a) = (registered (a_capacity a) \<le> cap_max (a_capacity a))"
| "item_capacity_ok (RegistrationItem pk rid r) = True"

definition capacity_ok :: "item list \<Rightarrow> bool" where
  "capacity_ok tbl = list_all item_capacity_ok tbl"

section \<open>Sample data\<close>

text \<open>Concrete events, requests and worlds, in the shape of the seeded data.\<close>

definition sample_attrs :: "string \<Rightarrow> int \<Rightarrow> int \<Rightarrow> event_attrs" where
  "sample_attrs cat mx reg =
     \<lparr>a_title = ''React Workshop'', a_description = ''Learn React basics'',
      a_date = ''2025-01-15T09:00:00Z'',
      a_category = \<lparr>cat_id = cat, cat_name = cat, cat_color = ''#3B82F6''\<rparr>,
      a_capacity = \<lparr>cap_max = mx, registered = reg\<rparr>,
      a_pricing = \<lparr>individual = 50\<rparr>,
      a_location = \<lparr>loc_type = online, address = None\<rparr>\<rparr>"

definition sample_request :: "string \<Rightarrow> string \<Rightarrow> string \<Rightarrow> int \<Rightarrow> register_request" where
  "sample_request eid email name gs =
     \<lparr>path_id = Some eid,
      body = JsonBody \<lparr>b_attendeeEmail = Some (units email),
                       b_attendeeName = Some (JString (units name)),
                       b_groupSize = Some (JInt gs)\<rparr>\<rparr>"

definition sample_env :: "string \<Rightarrow> env" where
  "sample_env rid = \<lparr>env_registrationId = rid, env_registeredAt = ''2025-01-01T00:00:00.000Z''\<rparr>"

definition one_event_world :: "int \<Rightarrow> int \<Rightarrow> world" where
  "one_event_world mx reg =
     \<lparr>table = [EventItem ''EVENT#1'' (sample_attrs ''technology'' mx reg)], faults = []\<rparr>"

definition sample_event :: "string \<Rightarrow> string \<Rightarrow> int \<Rightarrow> int \<Rightarrow> Event" where
  "sample_event eid cat mx reg =
     \<lparr>event_id = eid, title = ''React Workshop'', description = ''Learn React basics'',
      date = ''2025-01-15T09:00:00Z'',
      category = \<lparr>cat_id = cat, cat_name = cat, cat_color = ''#3B82F6''\<rparr>,
      capacity = \<lparr>cap_max = mx, registered = reg\<rparr>,
      pricing = \<lparr>individual = 50\<rparr>,
      location = \<lparr>loc_type = online, address = None\<rparr>\<rparr>"

definition three_event_world :: world where
  "three_event_world =
     \<lparr>table = [EventItem ''EVENT#1'' (sample_attrs ''technology'' 30 15),
               EventItem ''EVENT#2'' (sample_attrs ''business'' 20 5),
               EventItem ''EVENT#3'' (sample_attrs ''technology'' 10 10)],
      faults = []\<rparr>"

definition five_event_world :: world where
  "five_event_world =
     \<lparr>table = [EventItem ''EVENT#1'' (sample_attrs ''technology'' 30 15),
               EventItem ''EVENT#2'' (sample_attrs ''business'' 20 5),
               EventItem ''EVENT#3'' (sample_attrs ''technology'' 10 10),
               EventItem ''EVENT#4'' (sample_attrs ''design'' 40 1),
               EventItem ''EVENT#5'' (sample_attrs ''health'' 25 0)],
      faults = []\<rparr>"

definition sample_params :: "string option \<Rightarrow> string option \<Rightarrow> int option \<Rightarrow> ListEventsParams" where
  "sample_params cat st lim =
     \<lparr>p_category = cat, p_search = None, p_status = st, p_limit = lim, p_lastKey = None\<rparr>"

section \<open>Notions used in the statements\<close>

text \<open>The registration items of one partition: what the key condition of the query selects.\<close>

definition registrations_of :: "string \<Rightarrow> item list \<Rightarrow> item list" where
  "registrations_of pk tbl = filter (\<lambda>i. PK i = pk \<and> prefix ''REGISTRATION#'' (SK i)) tbl"

fun is_registration :: "item \<Rightarrow> bool" where
  "is_registration (EventItem pk a) = False"
| "is_registration (RegistrationItem pk rid r) = True"

definition registration_items :: "item list \<Rightarrow> item list" where
  "registration_items tbl = filter is_registration tbl"

text \<open>The stored attributes of the event with the given id, if the table has it.\<close>

definition event_in :: "item list \<Rightarrow> string \<Rightarrow> event_attrs option" where
  "event_in tbl eventId =
     (case lookup_item tbl (''EVENT#'' @ eventId, ''METADATA'') of
        Some (EventItem pk a) \<Rightarrow> Some a
      | _ \<Rightarrow> None)"

text \<open>The \<^verbatim>\<open>Event\<close> that \<^verbatim>\<open>getEvent\<close> builds from the stored attributes.\<close>

definition event_of :: "string \<Rightarrow> event_attrs \<Rightarrow> Event" where
  "event_of eventId a =
     \<lparr>event_id = eventId, title = a_title a, description = a_description a, date = a_date a,
      category = a_category a, capacity = a_capacity a, pricing = a_pricing a,
      location = a_location a\<rparr>"

text \<open>What \<^verbatim>\<open>checkDuplicateRegistration\<close> answers on a table when its query is served.\<close>

definition duplicate_found :: "item list \<Rightarrow> string \<Rightarrow> jstring \<Rightarrow> bool" where
  "duplicate_found tbl eventId email =
     (length (query_items (''EVENT#'' @ eventId) ''REGISTRATION#'' (filter_email email) 1 tbl) > 0)"

text \<open>
  Every registration record is backed by spent capacity: an event of the table has
  \<open>registered \<ge> 0\<close>, and registration items in its partition only if \<open>registered > 0\<close>.
  A seeded table, which has no registration items, is of this kind, and so is every
  table that requests lead to from there.
\<close>

fun item_accounted :: "item list \<Rightarrow> item \<Rightarrow> bool" where
  "item_accounted tbl (EventItem pk a) = True"
| "item_accounted tbl (RegistrationItem pk rid r) =
     (case lookup_item tbl (pk, ''METADATA'') of
        Some (EventItem pk' a) \<Rightarrow> 1 \<le> registered (a_capacity a)
      | _ \<Rightarrow> True)"

fun item_nonnegative :: "item \<Rightarrow> bool" where
  "item_nonnegative (EventItem pk a) = (0 \<le> registered (a_capacity a))"
| "item_nonnegative (RegistrationItem pk rid r) = True"

definition records_accounted :: "item list \<Rightarrow> bool" where
  "records_accounted tbl = (list_all item_nonnegative tbl \<and> list_all (item_accounted tbl) tbl)"

text \<open>
  What keeps the records accounted while requests are in flight: the group size is
  positive, the value to be written is above the value read, and a request that is
  about to write its record has spent capacity for it. \<open>grows\<close> says that no event
  appears and no \<open>registered\<close> goes down from one table to the next.
\<close>

fun pc_accounted :: "item list \<Rightarrow> pc \<Rightarrow> bool" where
  "pc_accounted tbl Validating = True"
| "pc_accounted tbl (DuplicateChecking (eventId, email, name, gs) existingEvent) = (1 \<le> gs)"
| "pc_accounted tbl (CapacityReading (eventId, email, name, gs)) = (1 \<le> gs)"
| "pc_accounted tbl (CapacityReserving (eventId, email, name, gs) event newRegistered) =
     (registered (capacity event) < newRegistered)"
| "pc_accounted tbl (RegistrationRecording (eventId, email, name, gs) updatedEvent) =
     (case event_in tbl eventId of
        Some a \<Rightarrow> 1 \<le> registered (a_capacity a)
      | None \<Rightarrow> True)"
| "pc_accounted tbl (Finished r) = True"

definition sys_accounted :: "system \<Rightarrow> bool" where
  "sys_accounted s =
     (records_accounted (table (sys_world s)) \<and>
      list_all (\<lambda>(en, req, p). pc_accounted (table (sys_world s)) p) (procs s))"

definition grows :: "item list \<Rightarrow> item list \<Rightarrow> bool" where
  "grows tbl tbl' =
     (\<forall>eid a'. event_in tbl' eid = Some a' \<longrightarrow>
        (\<exists>a. event_in tbl eid = Some a \<and> registered (a_capacity a) \<le> registered (a_capacity a')))"

text \<open>
  What a request in flight knows about the table. At \<open>CapacityReserving\<close> the new
  value was checked against \<open>max\<close> of the event as read, and \<open>max\<close> never changes.
\<close>

definition event_max :: "item list \<Rightarrow> string \<Rightarrow> int option" where
  "event_max tbl eventId = map_option (\<lambda>a. cap_max (a_capacity a)) (event_in tbl eventId)"

fun pc_ok :: "item list \<Rightarrow> pc \<Rightarrow> bool" where
  "pc_ok tbl (CapacityReserving (eventId, email, name, gs) event newRegistered) =
     (case event_max tbl eventId of
        Some m \<Rightarrow> newRegistered \<le> m
      | None \<Rightarrow> True)"
| "pc_ok tbl p = True"

definition sys_inv :: "system \<Rightarrow> bool" where
  "sys_inv s =
     (capacity_ok (table (sys_world s)) \<and>
      list_all (\<lambda>(en, req, p). pc_ok (table (sys_world s)) p) (procs s))"



text \<open>Two requests for the last place of an event, and a table with two registrations.\<close>

definition race_requests :: "(env \<times> register_request) list" where
  "race_requests =
     [(sample_env ''reg_1'', sample_request ''1'' ''ann@example.com'' ''Ann'' 1),
      (sample_env ''reg_2'', sample_request ''1'' ''bob@example.com'' ''Bob'' 1)]"

definition last_place_race :: system where
  "last_place_race = initial (one_event_world 1 0) race_requests"

text \<open>
  The same race with a fault schedule of nine entries, so that every store operation
  leaves a trace: eight operations are served, the ninth fails.
\<close>

definition last_place_race_traced :: system where
  "last_place_race_traced =
     initial \<lparr>table = [EventItem ''EVENT#1'' (sample_attrs ''technology'' 1 0)],
              faults = [False, False, False, False, False, False, False, False, True]\<rparr>
       race_requests"

text \<open>A world in which the fifth store operation, the registration write, fails.\<close>

definition write_fails_world :: world where
  "write_fails_world =
     \<lparr>table = [EventItem ''EVENT#1'' (sample_attrs ''technology'' 10 8)],
      faults = [False, False, False, False, True]\<rparr>"

definition bob_then_ann :: world where
  "bob_then_ann =
     snd (registerEventHandler (sample_env ''reg_2'')
            (sample_request ''1'' ''ann@example.com'' ''Ann'' 1)
            (snd (registerEventHandler (sample_env ''reg_1'')
                    (sample_request ''1'' ''bob@example.com'' ''Bob'' 1)
                    (one_event_world 10 0))))"

section \<open>Basic facts about the store client\<close>

lemma next_fault_none: "faults w = [] \<Longrightarrow> next_fault w = (False, w)"
  by (simp add: next_fault_def)

lemma getEvent_no_fault: "faults w = [] \<Longrightarrow> snd (getEvent eid w) = w"
  by (auto simp: getEvent_def send_GetItem_def next_fault_none split: option.splits item.splits)

lemma checkDuplicate_no_fault: "faults w = [] \<Longrightarrow> snd (checkDuplicateRegistration eid email w) = w"
  by (simp add: checkDuplicateRegistration_def send_Query_def next_fault_none)

lemma next_fault_tableD: "next_fault w = (f, w') \<Longrightarrow> table w' = table w"
  by (auto simp: next_fault_def split: list.splits)

lemma getEvent_table [simp]: "table (snd (getEvent eid w)) = table w"
  by (auto simp: getEvent_def send_GetItem_def dest: next_fault_tableD
           split: prod.splits bool.splits option.splits item.splits)

lemma checkDuplicate_table [simp]: "table (snd (checkDuplicateRegistration eid email w)) = table w"
  by (auto simp: checkDuplicateRegistration_def send_Query_def dest: next_fault_tableD
           split: prod.splits bool.splits)

section \<open>Validation\<close>

lemma not_an_email: "\<not> validateEmail (units ''not-an-email'')"
  by (simp add: validateEmail_def emailRegex_def not_space_at_def is_space_def units_def)

lemma valid_sample_email: "validateEmail (units ''ann@example.com'')"
  by (simp add: validateEmail_def emailRegex_def not_space_at_def is_space_def units_def)

lemma valid_bob_email: "validateEmail (units ''bob@example.com'')"
  by (simp add: validateEmail_def emailRegex_def not_space_at_def is_space_def units_def)

text \<open>The pattern and \<^verbatim>\<open>trim\<close> see the white space beyond ASCII.\<close>

lemma no_break_space_rejected:
  "\<not> validateEmail (units ''a'' @ [0xA0] @ units ''b@example.com'')"
  by (simp add: validateEmail_def emailRegex_def not_space_at_def is_space_def units_def)

lemma trim_unicode_blank: "trim [0xA0, 0x2028, 0xFEFF, 0x20] = []"
  by (simp add: trim_def is_space_def)

lemma sample_name_trim: "trim (units ''Ann'') \<noteq> []"
  by (simp add: trim_def is_space_def units_def)

lemma sample_name_again_trim: "trim (units ''Ann again'') \<noteq> []"
  by (simp add: trim_def is_space_def units_def)

lemma sample_name_nonempty: "units ''Ann'' \<noteq> []"
  by (simp add: units_def)

lemma validateEmail_nonempty: "validateEmail e \<Longrightarrow> e \<noteq> []"
  by (auto simp: validateEmail_def emailRegex_def)

lemma validate_request_id:
  "validate_request req = Inr (eid, email, name, gs) \<Longrightarrow> path_id req = Some eid"
  by (auto simp: validate_request_def truthy_string_def Let_def
           split: if_splits parsed_body.splits option.splits jsval.splits)

lemma validate_request_groupSize:
  "validate_request req = Inr (eid, email, name, gs) \<Longrightarrow> 1 \<le> gs"
  by (auto simp: validate_request_def truthy_string_def Let_def
           split: if_splits parsed_body.splits option.splits jsval.splits)

lemma sample_request_valid:
  "validateEmail (units email) \<Longrightarrow> eid \<noteq> [] \<Longrightarrow> trim (units name) \<noteq> [] \<Longrightarrow> 1 \<le> gs \<Longrightarrow>
   validate_request (sample_request eid email name gs) = Inr (eid, units email, units name, gs)"
  by (auto simp: validate_request_def sample_request_def truthy_string_def Let_def trim_def
           dest: validateEmail_nonempty)

lemma sample_getEvent:
  "getEvent ''1'' (one_event_world mx reg) =
     (Inr (Some (sample_event ''1'' ''technology'' mx reg)), one_event_world mx reg)"
  by (simp add: getEvent_def send_GetItem_def next_fault_def one_event_world_def lookup_item_def
        item_key_def sample_attrs_def sample_event_def)

lemma sample_getEvent_missing:
  "getEvent ''999'' (one_event_world mx reg) = (Inr None, one_event_world mx reg)"
  by (simp add: getEvent_def send_GetItem_def next_fault_def one_event_world_def lookup_item_def
        item_key_def)

lemma sample_checkDuplicate:
  "checkDuplicateRegistration ''1'' email (one_event_world mx reg) = (Inr False, one_event_world mx reg)"
  by (simp add: checkDuplicateRegistration_def send_Query_def next_fault_def one_event_world_def
        query_items_def)

section \<open>Order of the checks of a register request\<close>

lemma validate_request_reject:
  "validate_request req = Inl r \<Longrightarrow>
   error_of r \<in> {Some ''INVALID_REQUEST'', Some ''INVALID_EMAIL'', Some ''INTERNAL_ERROR''}"
  by (auto simp: validate_request_def error_of_def errorResponse_def Let_def
           split: if_splits parsed_body.splits option.splits jsval.splits)

text \<open>
  Claim C2, as amended. The handler validates the request before it reads the store, so
  event existence is the check after the validations, not the first one. A request
  that fails a validation gets the rejection of the first failing validation, in any
  world, whether or not the event exists, with the world as it was; this rejection is
  never \<^verbatim>\<open>EVENT_NOT_FOUND\<close>. A request that passes every validation, to an event that does
  not exist, gets \<^verbatim>\<open>EVENT_NOT_FOUND\<close> and leaves the table as it was.
\<close>

theorem event_not_found_after_validation:
  "(case validate_request req of
      Inl r \<Rightarrow>
        registerEventHandler en req w = (r, w) \<and> error_of r \<noteq> Some ''EVENT_NOT_FOUND''
    | Inr (eid, email, name, gs) \<Rightarrow>
        path_id req = Some eid \<and>
        (fst (getEvent eid w) = Inr None \<longrightarrow>
           fst (registerEventHandler en req w)
             = errorResponse 404 ''EVENT_NOT_FOUND'' ''Event not found'' \<and>
           table (snd (registerEventHandler en req w)) = table w))"
proof (cases "validate_request req")
  case (Inl r)
  from validate_request_reject [OF Inl] have "error_of r \<noteq> Some ''EVENT_NOT_FOUND''" by auto
  with Inl show ?thesis by (simp add: registerEventHandler_def)
next
  case (Inr a)
  obtain eid email name gs where a: "a = (eid, email, name, gs)" by (cases a) auto
  from Inr a have p: "path_id req = Some eid" using validate_request_id by blast
  have "fst (registerEventHandler en req w)
          = errorResponse 404 ''EVENT_NOT_FOUND'' ''Event not found'' \<and>
        table (snd (registerEventHandler en req w)) = table w"
    if "fst (getEvent eid w) = Inr None"
  proof -
    have "table (snd (getEvent eid w)) = table w" by (rule getEvent_table)
    with that Inr a show ?thesis
      by (cases "getEvent eid w") (simp add: registerEventHandler_def)
  qed
  with Inr a p show ?thesis by simp
qed

text \<open>
  A valid request to a missing event; a request with a malformed email to a missing
  event and to an event of the table.
\<close>

theorem event_not_found_after_validation_witness:
  "validate_request (sample_request ''999'' ''ann@example.com'' ''Ann'' 1)
     = Inr (''999'', units ''ann@example.com'', units ''Ann'', 1) \<and>
   fst (getEvent ''999'' (one_event_world 10 8)) = Inr None \<and>
   fst (registerEventHandler (sample_env ''reg_1'')
          (sample_request ''999'' ''ann@example.com'' ''Ann'' 1) (one_event_world 10 8))
     = errorResponse 404 ''EVENT_NOT_FOUND'' ''Event not found'' \<and>
   validate_request (sample_request ''999'' ''not-an-email'' ''Ann'' 1)
     = Inl (errorResponse 400 ''INVALID_EMAIL'' ''Please provide a valid email address'') \<and>
   registerEventHandler (sample_env ''reg_1'')
       (sample_request ''999'' ''not-an-email'' ''Ann'' 1) (one_event_world 10 8)
     = (errorResponse 400 ''INVALID_EMAIL'' ''Please provide a valid email address'',
        one_event_world 10 8) \<and>
   validate_request (sample_request ''1'' ''not-an-email'' ''Ann'' 1)
     = Inl (errorResponse 400 ''INVALID_EMAIL'' ''Please provide a valid email address'') \<and>
   registerEventHandler (sample_env ''reg_1'')
       (sample_request ''1'' ''not-an-email'' ''Ann'' 1) (one_event_world 10 8)
     = (errorResponse 400 ''INVALID_EMAIL'' ''Please provide a valid email address'',
        one_event_world 10 8)"
proof -
  have v: "validate_request (sample_request ''999'' ''ann@example.com'' ''Ann'' 1)
             = Inr (''999'', units ''ann@example.com'', units ''Ann'', 1)"
    by (rule sample_request_valid) (simp_all add: valid_sample_email sample_name_trim)
  have g: "fst (getEvent ''999'' (one_event_world 10 8)) = Inr None"
    by (simp add: sample_getEvent_missing)
  have i: "validate_request (sample_request eid ''not-an-email'' ''Ann'' 1)
             = Inl (errorResponse 400 ''INVALID_EMAIL'' ''Please provide a valid email address'')"
    if "eid \<noteq> []" for eid
    using that not_an_email sample_name_nonempty
    by (simp add: validate_request_def sample_request_def truthy_string_def units_def)
  show ?thesis
    using v g i [of "''999''"] i [of "''1''"]
      event_not_found_after_validation
        [where req = "sample_request ''999'' ''ann@example.com'' ''Ann'' 1"
           and en = "sample_env ''reg_1''" and w = "one_event_world 10 8"]
      event_not_found_after_validation
        [where req = "sample_request ''999'' ''not-an-email'' ''Ann'' 1"
           and en = "sample_env ''reg_1''" and w = "one_event_world 10 8"]
      event_not_found_after_validation
        [where req = "sample_request ''1'' ''not-an-email'' ''Ann'' 1"
           and en = "sample_env ''reg_1''" and w = "one_event_world 10 8"]
    by simp
qed

text \<open>
  The claim as written fails: a request to a missing event with a malformed email is
  answered \<^verbatim>\<open>INVALID_EMAIL\<close>.
\<close>

theorem missing_event_invalid_email_counterexample:
  "fst (getEvent ''999'' (one_event_world 10 8)) = Inr None \<and>
   fst (registerEventHandler (sample_env ''reg_1'')
          (sample_request ''999'' ''not-an-email'' ''Ann'' 1) (one_event_world 10 8))
     = errorResponse 400 ''INVALID_EMAIL'' ''Please provide a valid email address''"
  using not_an_email sample_name_nonempty
  by (simp add: sample_getEvent_missing registerEventHandler_def validate_request_def
        sample_request_def truthy_string_def units_def)

section \<open>A request without a matching email never reaches the store\<close>





section \<open>Requests beyond the capacity\<close>

text \<open>
  Claim C5. A register request that passes validation, to an event that exists and for
  which the duplicate check finds nothing, with \<open>registered + groupSize > max\<close>, is
  rejected and leaves the world as it was: with \<^verbatim>\<open>EVENT_FULL\<close> when \<open>registered\<close> has
  reached \<open>max\<close> already, with \<^verbatim>\<open>INSUFFICIENT_CAPACITY\<close> otherwise. No transport fault is
  assumed.
\<close>

theorem over_capacity_rejected_unchanged:
  assumes "validate_request req = Inr (eid, email, name, gs)"
    and "faults w = []"
    and "fst (getEvent eid w) = Inr (Some ev)"
    and "fst (checkDuplicateRegistration eid email w) = Inr False"
    and "registered (capacity ev) + gs > cap_max (capacity ev)"
  shows "registerEventHandler en req w =
           (if registered (capacity ev) \<ge> cap_max (capacity ev)
            then errorResponse 400 ''EVENT_FULL'' ''Event has reached maximum capacity''
            else errorResponse 400 ''INSUFFICIENT_CAPACITY''
                   ''Not enough spots available for group size'', w)"
proof -
  have g: "getEvent eid w = (Inr (Some ev), w)"
    using assms(2,3) getEvent_no_fault [of w eid] by (cases "getEvent eid w") simp
  have d: "checkDuplicateRegistration eid email w = (Inr False, w)"
    using assms(2,4) checkDuplicate_no_fault [of w eid email]
    by (cases "checkDuplicateRegistration eid email w") simp
  show ?thesis
    using assms(1,5) g d
    by (simp add: registerEventHandler_def registerForEvent_def register_response_def Let_def)
qed

text \<open>The two examples of the specification: group size 3 at 8 of 10, and a full event.\<close>

theorem over_capacity_rejected_unchanged_witness:
  "validate_request (sample_request ''1'' ''ann@example.com'' ''Ann'' 3)
     = Inr (''1'', units ''ann@example.com'', units ''Ann'', 3) \<and>
   faults (one_event_world 10 8) = [] \<and>
   fst (getEvent ''1'' (one_event_world 10 8)) = Inr (Some (sample_event ''1'' ''technology'' 10 8)) \<and>
   fst (checkDuplicateRegistration ''1'' (units ''ann@example.com'') (one_event_world 10 8)) = Inr False \<and>
   registerEventHandler (sample_env ''reg_1'') (sample_request ''1'' ''ann@example.com'' ''Ann'' 3)
       (one_event_world 10 8)
     = (errorResponse 400 ''INSUFFICIENT_CAPACITY'' ''Not enough spots available for group size'',
        one_event_world 10 8) \<and>
   registerEventHandler (sample_env ''reg_1'') (sample_request ''1'' ''ann@example.com'' ''Ann'' 3)
       (one_event_world 5 5)
     = (errorResponse 400 ''EVENT_FULL'' ''Event has reached maximum capacity'',
        one_event_world 5 5)"
proof -
  have v: "validate_request (sample_request ''1'' ''ann@example.com'' ''Ann'' 3)
             = Inr (''1'', units ''ann@example.com'', units ''Ann'', 3)"
    by (rule sample_request_valid) (simp_all add: valid_sample_email sample_name_trim sample_name_again_trim)
  have f: "faults (one_event_world mx reg) = []" for mx reg
    by (simp add: one_event_world_def)
  have g: "fst (getEvent ''1'' (one_event_world mx reg))
             = Inr (Some (sample_event ''1'' ''technology'' mx reg))" for mx reg
    by (simp add: sample_getEvent)
  have d: "fst (checkDuplicateRegistration ''1'' (units ''ann@example.com'') (one_event_world mx reg))
             = Inr False" for mx reg
    by (simp add: sample_checkDuplicate)
  have c1: "registered (capacity (sample_event ''1'' ''technology'' 10 8)) + 3
              > cap_max (capacity (sample_event ''1'' ''technology'' 10 8))"
    by (simp add: sample_event_def)
  have c2: "registered (capacity (sample_event ''1'' ''technology'' 5 5)) + 3
              > cap_max (capacity (sample_event ''1'' ''technology'' 5 5))"
    by (simp add: sample_event_def)
  show ?thesis
    using v f g d
      over_capacity_rejected_unchanged [OF v f g d c1, of "sample_env ''reg_1''"]
      over_capacity_rejected_unchanged [OF v f g d c2, of "sample_env ''reg_1''"]
    by (simp add: sample_event_def)
qed

section \<open>Listing events\<close>

lemma set_slice0: "set (slice0 xs n) \<subseteq> set xs"
  by (auto simp: slice0_def dest: in_set_takeD)

lemma set_filter_search: "set (filter_search params evs) \<subseteq> set evs"
  by (auto simp: filter_search_def Let_def)

lemma set_filter_status: "set (filter_status params evs) \<subseteq> set evs"
  by (auto simp: filter_status_def)

lemma filter_category_sound:
  "p_category params = Some c \<Longrightarrow> c \<noteq> [] \<Longrightarrow> e \<in> set (filter_category params evs) \<Longrightarrow>
   cat_id (category e) = c"
  by (simp add: filter_category_def truthy_string_def)

lemma filter_status_available:
  "p_status params = Some ''available'' \<Longrightarrow> e \<in> set (filter_status params evs) \<Longrightarrow>
   registered (capacity e) < cap_max (capacity e)"
  by (simp add: filter_status_def truthy_string_def)

lemma list_page_events_subset:
  "set (events (list_page params result))
     \<subseteq> set (filter_status params (filter_search params
              (filter_category params (map unmarshall_listed (Items result)))))"
  by (simp add: list_page_def Let_def set_slice0)

lemma list_page_category:
  assumes "p_category params = Some c" and "c \<noteq> []"
    and "e \<in> set (events (list_page params result))"
  shows "cat_id (category e) = c"
proof -
  from assms(3) have "e \<in> set (filter_category params (map unmarshall_listed (Items result)))"
    using list_page_events_subset set_filter_status set_filter_search by blast
  with assms(1,2) show ?thesis by (rule filter_category_sound)
qed

lemma list_page_available:
  assumes "p_status params = Some ''available''"
    and "e \<in> set (events (list_page params result))"
  shows "registered (capacity e) < cap_max (capacity e)"
  using assms list_page_events_subset filter_status_available by blast

lemma list_page_total:
  "total (list_page params result) = int (length (events (list_page params result)))"
  by (simp add: list_page_def Let_def)

text \<open>Whatever \<^verbatim>\<open>hasMore\<close> is, the token returned is the one of the scan.\<close>

lemma list_page_lastKey: "lastKey (list_page params result) = LastEvaluatedKey result"
  by (cases "LastEvaluatedKey result") (simp_all add: list_page_def Let_def)

lemma listEvents_no_fault:
  "faults w = [] \<Longrightarrow> 1 \<le> effective_limit params \<Longrightarrow>
   listEvents params w =
     (Inr (list_page params
             (scan_metadata (effective_limit params * 2) (p_lastKey params) (table w))), w)"
  by (simp add: listEvents_def send_Scan_def next_fault_none Let_def)

text \<open>
  Claim C8. A call of \<^verbatim>\<open>listEvents\<close> with a limit of at least 1, on any table and without
  a transport fault, returns a page such that: under a category filter \<open>c\<close> (any
  non-empty string, \<^verbatim>\<open>technology\<close> among them) every event of the page has category id
  \<open>c\<close>; under the status filter \<^verbatim>\<open>available\<close> every event of the page has
  \<open>registered < max\<close>; and \<^verbatim>\<open>total\<close> is the number of events of the page.
\<close>

theorem listEvents_filters_and_total:
  assumes "faults w = []" and "1 \<le> effective_limit params"
  shows "\<exists>res. listEvents params w = (Inr res, w) \<and>
           (\<forall>c. p_category params = Some c \<and> c \<noteq> [] \<longrightarrow>
                (\<forall>e \<in> set (events res). cat_id (category e) = c)) \<and>
           (p_status params = Some ''available'' \<longrightarrow>
                (\<forall>e \<in> set (events res). registered (capacity e) < cap_max (capacity e))) \<and>
           total res = int (length (events res))"
  using listEvents_no_fault [OF assms] list_page_category list_page_available list_page_total
  by blast

lemma technology_available_page:
  "fst (listEvents (sample_params (Some ''technology'') (Some ''available'') None) three_event_world)
     = Inr \<lparr>events = [sample_event ''1'' ''technology'' 30 15], total = 1, lastKey = None\<rparr>"
  by (simp add: listEvents_def send_Scan_def next_fault_def three_event_world_def sample_params_def
      effective_limit_def scan_metadata_def after_key_def list_page_def Let_def
      unmarshall_listed_def filter_category_def filter_search_def filter_status_def
      truthy_string_def slice0_def sample_attrs_def sample_event_def)

theorem listEvents_filters_and_total_witness:
  "faults three_event_world = [] \<and>
   1 \<le> effective_limit (sample_params (Some ''technology'') (Some ''available'') None) \<and>
   (\<exists>res. listEvents (sample_params (Some ''technology'') (Some ''available'') None)
            three_event_world = (Inr res, three_event_world) \<and>
          events res = [sample_event ''1'' ''technology'' 30 15] \<and>
          (\<forall>e \<in> set (events res). cat_id (category e) = ''technology'') \<and>
          (\<forall>e \<in> set (events res). registered (capacity e) < cap_max (capacity e)) \<and>
          total res = int (length (events res)))"
proof -
  have f: "faults three_event_world = []" by (simp add: three_event_world_def)
  have l: "1 \<le> effective_limit (sample_params (Some ''technology'') (Some ''available'') None)"
    by (simp add: effective_limit_def sample_params_def)
  show ?thesis
    using f l listEvents_filters_and_total [OF f l] technology_available_page
    by (auto simp: sample_params_def)
qed

text \<open>
  Claim C3. The claim asks for a continuation token whenever the filtered buffer holds
  more than \<open>limit\<close> events, also when the scan has reached the end of the table. The
  code computes \<^verbatim>\<open>hasMore\<close> that way, but builds the token from \<^verbatim>\<open>LastEvaluatedKey\<close> only:
  on a table of three events and with limit 2 the scan (limit 4) returns all three and
  no key, and the page has two events and no token, so the third event is out of reach.
\<close>

theorem listEvents_no_token_at_end_of_scan:
  "length (Items (scan_metadata 4 None (table three_event_world))) = 3 \<and>
   LastEvaluatedKey (scan_metadata 4 None (table three_event_world)) = None \<and>
   fst (listEvents (sample_params None None (Some 2)) three_event_world)
     = Inr \<lparr>events = [sample_event ''1'' ''technology'' 30 15, sample_event ''2'' ''business'' 20 5],
            total = 2, lastKey = None\<rparr>"
  by (simp add: listEvents_def send_Scan_def next_fault_def three_event_world_def sample_params_def
      effective_limit_def scan_metadata_def after_key_def list_page_def Let_def
      unmarshall_listed_def filter_category_def filter_search_def filter_status_def
      truthy_string_def slice0_def sample_attrs_def sample_event_def)

text \<open>
  With a token the over-fetched events are out of reach as well: on five events and with
  limit 2 the first page has events 1 and 2 and the key of event 4 as token, and the
  page after that token has event 5 only.
\<close>

lemma listEvents_skips_overfetched:
  "fst (listEvents (sample_params None None (Some 2)) five_event_world)
     = Inr \<lparr>events = [sample_event ''1'' ''technology'' 30 15, sample_event ''2'' ''business'' 20 5],
            total = 2, lastKey = Some (''EVENT#4'', ''METADATA'')\<rparr> \<and>
   fst (listEvents \<lparr>p_category = None, p_search = None, p_status = None, p_limit = Some 2,
                    p_lastKey = Some (''EVENT#4'', ''METADATA'')\<rparr> five_event_world)
     = Inr \<lparr>events = [sample_event ''5'' ''health'' 25 0], total = 1, lastKey = None\<rparr>"
  by (simp add: listEvents_def send_Scan_def next_fault_def five_event_world_def sample_params_def
      effective_limit_def scan_metadata_def after_key_def list_page_def Let_def item_key_def
      unmarshall_listed_def filter_category_def filter_search_def filter_status_def
      truthy_string_def slice0_def sample_attrs_def sample_event_def)

section \<open>Facts about the table operations\<close>

lemma SK_registration_not_metadata [simp]: "''REGISTRATION#'' @ rid \<noteq> ''METADATA''"
  by simp

lemma prefix_registration_metadata [simp]: "\<not> prefix ''REGISTRATION#'' ''METADATA''"
  by (simp add: prefix_def)

lemma next_fault_table [simp]: "table (snd (next_fault w)) = table w"
  by (simp add: next_fault_def split: list.splits)

lemma next_fault_cons: "faults w = f # fs \<Longrightarrow> next_fault w = (f, w\<lparr>faults := fs\<rparr>)"
  by (simp add: next_fault_def)

subsection \<open>update_registered\<close>

lemma update_registered_None_iff:
  "update_registered k cur new tbl = None \<longleftrightarrow>
     \<not> (\<exists>pk a. lookup_item tbl k = Some (EventItem pk a) \<and> registered (a_capacity a) = cur)"
  by (induction tbl) (auto simp: lookup_item_def Let_def split: item.splits option.splits)

lemma update_registered_attrs:
  "update_registered k cur new tbl = Some (a', tbl') \<Longrightarrow>
   \<exists>pk a. lookup_item tbl k = Some (EventItem pk a) \<and> registered (a_capacity a) = cur \<and>
          a' = a\<lparr>a_capacity := (a_capacity a)\<lparr>registered := new\<rparr>\<rparr> \<and>
          lookup_item tbl' k = Some (EventItem pk a')"
  by (induction tbl arbitrary: tbl')
     (auto simp: lookup_item_def Let_def item_key_def split: item.splits option.splits if_splits)

lemma update_registered_other:
  "update_registered k cur new tbl = Some (a', tbl') \<Longrightarrow> k' \<noteq> k \<Longrightarrow>
   lookup_item tbl' k' = lookup_item tbl k'"
  by (induction tbl arbitrary: tbl')
     (auto simp: lookup_item_def Let_def item_key_def split: item.splits option.splits if_splits)

lemma update_registered_registrations:
  "update_registered k cur new tbl = Some (a', tbl') \<Longrightarrow>
   registrations_of pk tbl' = registrations_of pk tbl"
  by (induction tbl arbitrary: tbl')
     (auto simp: registrations_of_def Let_def split: item.splits option.splits if_splits)

lemma update_registered_registration_items:
  "update_registered k cur new tbl = Some (a', tbl') \<Longrightarrow>
   registration_items tbl' = registration_items tbl"
  by (induction tbl arbitrary: tbl')
     (auto simp: registration_items_def Let_def split: item.splits option.splits if_splits)

lemma update_registered_capacity_ok:
  "update_registered k cur new tbl = Some (a', tbl') \<Longrightarrow> capacity_ok tbl \<Longrightarrow>
   new \<le> cap_max (a_capacity a') \<Longrightarrow> capacity_ok tbl'"
  by (induction tbl arbitrary: tbl')
     (auto simp: capacity_ok_def Let_def split: item.splits option.splits if_splits)

subsection \<open>put_item\<close>

lemma put_item_lookup_metadata:
  "lookup_item (put_item (RegistrationItem pk rid r) tbl) (pk', ''METADATA'')
     = lookup_item tbl (pk', ''METADATA'')"
  by (induction tbl) (auto simp: lookup_item_def item_key_def)

lemma put_item_capacity_ok:
  "capacity_ok tbl \<Longrightarrow> capacity_ok (put_item (RegistrationItem pk rid r) tbl)"
  by (induction tbl) (auto simp: capacity_ok_def)

lemma event_in_put [simp]:
  "event_in (put_item (RegistrationItem pk rid r) tbl) eid = event_in tbl eid"
  by (simp add: event_in_def put_item_lookup_metadata)

lemma event_max_put [simp]:
  "event_max (put_item (RegistrationItem pk rid r) tbl) eid = event_max tbl eid"
  by (simp add: event_max_def)

lemma event_max_update:
  assumes "update_registered k cur new tbl = Some (a', tbl')"
  shows "event_max tbl' eid = event_max tbl eid"
proof (cases "(''EVENT#'' @ eid, ''METADATA'') = k")
  case True
  with update_registered_attrs [OF assms] show ?thesis
    by (auto simp: event_in_def event_max_def)
next
  case False
  with update_registered_other [OF assms, of "(''EVENT#'' @ eid, ''METADATA'')"] show ?thesis
    by (simp add: event_in_def event_max_def)
qed


section \<open>No oversell under any interleaving\<close>

lemma getEvent_Some:
  assumes "getEvent eid w = (Inr (Some ev), w1)"
  shows "table w1 = table w" and "\<exists>a. event_in (table w) eid = Some a \<and> capacity ev = a_capacity a"
proof -
  from assms have "table (snd (getEvent eid w)) = table w1" by simp
  then show "table w1 = table w" by simp
  obtain f w' where nf: "next_fault w = (f, w')" by (cases "next_fault w") auto
  then have "table w' = table w" by (rule next_fault_tableD)
  with assms nf show "\<exists>a. event_in (table w) eid = Some a \<and> capacity ev = a_capacity a"
    by (auto simp: getEvent_def send_GetItem_def event_in_def
             split: bool.splits option.splits item.splits)
qed

lemma pc_ok_event_max:
  "(\<And>eid. event_max tbl' eid = event_max tbl eid) \<Longrightarrow> pc_ok tbl p \<Longrightarrow> pc_ok tbl' p"
  by (cases "(tbl, p)" rule: pc_ok.cases) auto

lemma send_UpdateItem_cases:
  assumes "send_UpdateItem k cur new w = (res, w')"
  obtains (unchanged) e where "res = Inl e" and "table w' = table w"
        | (updated) a' where "res = Inr a'"
            and "update_registered k cur new (table w) = Some (a', table w')"
  using assms
  by (auto simp: send_UpdateItem_def dest: next_fault_tableD
           split: prod.splits bool.splits option.splits)

lemma send_PutItem_cases:
  assumes "send_PutItem x w = (res, w')"
  obtains (unchanged) e where "res = Inl e" and "table w' = table w"
        | (stored) "res = Inr ()" and "table w' = put_item x (table w)"
  using assms
  by (auto simp: send_PutItem_def dest: next_fault_tableD split: prod.splits bool.splits)

lemma proc_step_inv:
  assumes "proc_step en req p w = (p', w')" and "capacity_ok (table w)" and "pc_ok (table w) p"
  shows "capacity_ok (table w') \<and> pc_ok (table w') p' \<and>
         (\<forall>eid. event_max (table w') eid = event_max (table w) eid)"
proof (cases p)
  case Validating
  show ?thesis
  proof (cases "validate_request req")
    case (Inl r)
    with Validating assms show ?thesis by auto
  next
    case (Inr a)
    obtain eid email name gs where a: "a = (eid, email, name, gs)" by (cases a) auto
    have "table (snd (getEvent eid w)) = table w" by simp
    with Validating Inr a assms show ?thesis
      by (cases "getEvent eid w") (auto split: sum.splits option.splits)
  qed
next
  case (DuplicateChecking a ev)
  obtain eid email name gs where a: "a = (eid, email, name, gs)" by (cases a) auto
  have "table (snd (checkDuplicateRegistration eid email w)) = table w" by simp
  with DuplicateChecking a assms show ?thesis
    by (cases "checkDuplicateRegistration eid email w") (auto split: sum.splits if_splits)
next
  case (CapacityReading a)
  obtain eid email name gs where a: "a = (eid, email, name, gs)" by (cases a) auto
  obtain res w1 where g: "getEvent eid w = (res, w1)" by (cases "getEvent eid w") auto
  then have t: "table w1 = table w" using getEvent_table [of eid w] by simp
  show ?thesis
  proof (cases res)
    case (Inl e)
    with CapacityReading a g t assms show ?thesis by auto
  next
    case (Inr evo)
    show ?thesis
    proof (cases evo)
      case None
      with Inr CapacityReading a g t assms show ?thesis by auto
    next
      case (Some ev)
      with Inr g obtain at where "event_in (table w) eid = Some at" and "capacity ev = a_capacity at"
        using getEvent_Some(2) by blast
      with Some Inr CapacityReading a g t assms show ?thesis
        by (auto simp: Let_def event_max_def split: if_splits)
    qed
  qed
next
  case (CapacityReserving a ev n)
  obtain eid email name gs where a: "a = (eid, email, name, gs)" by (cases a) auto
  obtain res w2 where u: "send_UpdateItem (''EVENT#'' @ eid, ''METADATA'') (registered (capacity ev)) n w = (res, w2)"
    by (cases "send_UpdateItem (''EVENT#'' @ eid, ''METADATA'') (registered (capacity ev)) n w") auto
  from u show ?thesis
  proof (cases rule: send_UpdateItem_cases)
    case (unchanged e)
    with CapacityReserving a u assms show ?thesis by (auto split: if_splits)
  next
    case (updated a')
    from update_registered_attrs [OF updated(2)] obtain pk at where
      l: "lookup_item (table w) (''EVENT#'' @ eid, ''METADATA'') = Some (EventItem pk at)" and
      a': "a' = at\<lparr>a_capacity := (a_capacity at)\<lparr>registered := n\<rparr>\<rparr>"
      by blast
    from l have "event_max (table w) eid = Some (cap_max (a_capacity at))"
      by (simp add: event_max_def event_in_def)
    with assms(3) CapacityReserving a have "n \<le> cap_max (a_capacity at)" by simp
    with a' have "n \<le> cap_max (a_capacity a')" by simp
    with update_registered_capacity_ok [OF updated(2) assms(2)] have "capacity_ok (table w2)" .
    moreover have "\<forall>e. event_max (table w2) e = event_max (table w) e"
      using event_max_update [OF updated(2)] by simp
    ultimately show ?thesis
      using CapacityReserving a u updated(1) assms(1) by auto
  qed
next
  case (RegistrationRecording a upd)
  obtain eid email name gs where a: "a = (eid, email, name, gs)" by (cases a) auto
  define x where "x = RegistrationItem (''EVENT#'' @ eid) (env_registrationId en)
                \<lparr>r_attendeeEmail = email, r_attendeeName = name,
                 r_groupSize = gs, r_registeredAt = env_registeredAt en\<rparr>"
  obtain res w3 where u: "send_PutItem x w = (res, w3)" by (cases "send_PutItem x w") auto
  from u show ?thesis
  proof (cases rule: send_PutItem_cases)
    case (unchanged e)
    with RegistrationRecording a u assms show ?thesis by (auto simp: x_def)
  next
    case stored
    then have "capacity_ok (table w3)" and "\<forall>e. event_max (table w3) e = event_max (table w) e"
      using assms(2) by (simp_all add: x_def put_item_capacity_ok)
    with RegistrationRecording a u stored(1) assms(1) show ?thesis by (auto simp: x_def)
  qed
next
  case (Finished r)
  with assms show ?thesis by simp
qed

lemma sys_step_inv:
  assumes "sys_inv s"
  shows "sys_inv (sys_step i s)"
proof (cases "i < length (procs s)")
  case False
  with assms show ?thesis by (simp add: sys_step_def)
next
  case True
  obtain en req p where pi: "procs s ! i = (en, req, p)" by (cases "procs s ! i") auto
  obtain p' w' where st: "proc_step en req p (sys_world s) = (p', w')"
    by (cases "proc_step en req p (sys_world s)") auto
  from True pi have "(en, req, p) \<in> set (procs s)" by (metis nth_mem)
  with assms have ok: "pc_ok (table (sys_world s)) p" and cap: "capacity_ok (table (sys_world s))"
    and all: "\<forall>(en, req, q) \<in> set (procs s). pc_ok (table (sys_world s)) q"
    by (auto simp: sys_inv_def list_all_iff)
  from proc_step_inv [OF st cap ok] have
    c': "capacity_ok (table w')" and p': "pc_ok (table w') p'"
    and m: "\<And>eid. event_max (table w') eid = event_max (table (sys_world s)) eid"
    by auto
  have "pc_ok (table w') q" if "(e, r, q) \<in> set ((procs s)[i := (en, req, p')])" for e r q
  proof -
    from that have "(e, r, q) = (en, req, p') \<or> (e, r, q) \<in> set (procs s)"
      using set_update_subset_insert by fastforce
    then show ?thesis
      using p' all pc_ok_event_max [OF m] by auto
  qed
  with c' True pi st show ?thesis
    by (auto simp: sys_inv_def sys_step_def list_all_iff)
qed

lemma run_schedule_inv: "sys_inv s \<Longrightarrow> sys_inv (run_schedule sched s)"
  by (induction sched arbitrary: s) (simp_all add: sys_step_inv)

lemma initial_inv: "capacity_ok (table w) \<Longrightarrow> sys_inv (initial w reqs)"
  by (auto simp: sys_inv_def initial_def list_all_iff)

text \<open>
  Claim C1. Take any table in which no event is oversold, any list of register requests
  and any schedule, that is any interleaving of the store operations of these requests
  (the read of \<open>registered\<close>, the conditional update and the registration write of one
  request are separate steps, and steps of other requests may come between them). In
  the table reached, no event is oversold: \<open>registered \<le> max\<close> for every event.
\<close>

theorem no_oversell:
  assumes "capacity_ok (table w)"
  shows "capacity_ok (table (sys_world (run_schedule sched (initial w reqs))))"
  using run_schedule_inv [OF initial_inv [OF assms]] by (simp add: sys_inv_def)


text \<open>Two requests race for the last place: one is accepted, the other is refused.\<close>

lemma last_place_race_outcome:
  "map (\<lambda>(en, req, p). p) (procs (run_schedule [0, 0, 0, 1, 1, 1, 0, 1, 0, 1] last_place_race)) =
     [Finished (successResponse (RegisterSuccess ''reg_1'' (sample_event ''1'' ''technology'' 1 1)
                  \<lparr>att_email = units ''ann@example.com'', att_name = units ''Ann'', att_groupSize = 1,
                   att_registeredAt = ''2025-01-01T00:00:00.000Z''\<rparr>)),
      Finished (errorResponse 400 ''INSUFFICIENT_CAPACITY''
                  ''Not enough spots available for group size'')]"
  by code_simp

theorem no_oversell_witness:
  "capacity_ok (table (one_event_world 1 0)) \<and>
   capacity_ok (table (sys_world (run_schedule [0, 0, 0, 1, 1, 1, 0, 1, 0, 1]
                                    (initial (one_event_world 1 0) race_requests))))"
proof -
  have c: "capacity_ok (table (one_event_world 1 0))"
    by (simp add: capacity_ok_def one_event_world_def sample_attrs_def)
  show ?thesis by (intro conjI c no_oversell [OF c])
qed

section \<open>The services in terms of the table\<close>

lemma getEvent_eq:
  "getEvent eid w =
     (if fst (next_fault w) then Inl TransportError
      else Inr (map_option (event_of eid) (event_in (table w) eid)), snd (next_fault w))"
proof -
  obtain f w' where nf: "next_fault w = (f, w')" by (cases "next_fault w") auto
  then have "table w' = table w" by (rule next_fault_tableD)
  with nf show ?thesis
    by (auto simp: getEvent_def send_GetItem_def event_in_def event_of_def
             split: bool.splits option.splits item.splits)
qed

lemma checkDuplicate_eq:
  "checkDuplicateRegistration eid email w =
     (if fst (next_fault w) then Inl TransportError
      else Inr (duplicate_found (table w) eid email), snd (next_fault w))"
proof -
  obtain f w' where nf: "next_fault w = (f, w')" by (cases "next_fault w") auto
  then have "table w' = table w" by (rule next_fault_tableD)
  with nf show ?thesis
    by (auto simp: checkDuplicateRegistration_def send_Query_def duplicate_found_def)
qed

lemma update_registered_Some:
  assumes "lookup_item tbl k = Some (EventItem pk a)" and "registered (a_capacity a) = cur"
  shows "\<exists>tbl'. update_registered k cur new tbl
            = Some (a\<lparr>a_capacity := (a_capacity a)\<lparr>registered := new\<rparr>\<rparr>, tbl')"
proof -
  from assms have "update_registered k cur new tbl \<noteq> None"
    by (simp add: update_registered_None_iff)
  then obtain a' tbl' where u: "update_registered k cur new tbl = Some (a', tbl')" by auto
  from update_registered_attrs [OF u] assms(1) u show ?thesis by auto
qed

section \<open>A failed conditional update ends the request\<close>

lemma finished_sys_step:
  assumes "i < length (procs s)" and "procs s ! i = (en, req, Finished r)"
  shows "procs (sys_step j s) ! i = (en, req, Finished r) \<and> length (procs (sys_step j s)) = length (procs s)"
proof (cases "j < length (procs s)")
  case False
  with assms show ?thesis by (simp add: sys_step_def)
next
  case True
  show ?thesis
  proof (cases "j = i")
    case True
    with assms show ?thesis by (simp add: sys_step_def)
  next
    case False
    with assms \<open>j < length (procs s)\<close> show ?thesis
      by (auto simp: sys_step_def split: prod.splits)
  qed
qed

lemma finished_run_schedule:
  "i < length (procs s) \<Longrightarrow> procs s ! i = (en, req, Finished r) \<Longrightarrow>
   procs (run_schedule sched s) ! i = (en, req, Finished r)"
proof (induction sched arbitrary: s)
  case Nil
  then show ?case by simp
next
  case (Cons j sched)
  from finished_sys_step [OF Cons.prems, of j]
  have "procs (sys_step j s) ! i = (en, req, Finished r)" and "i < length (procs (sys_step j s))"
    using Cons.prems(1) by simp_all
  with Cons.IH [of "sys_step j s"] show ?case by simp
qed

lemma finished_step_idle:
  "i < length (procs s) \<Longrightarrow> procs s ! i = (en, req, Finished r) \<Longrightarrow> sys_step i s = s"
  by (simp add: sys_step_def list_update_same_conv)

lemma sys_step_length: "length (procs (sys_step j s)) = length (procs s)"
  by (simp add: sys_step_def split: prod.splits)

lemma run_schedule_length: "length (procs (run_schedule sched s)) = length (procs s)"
  by (induction sched arbitrary: s) (simp_all add: sys_step_length)

lemma next_fault_snd: "snd (next_fault w) = w\<lparr>faults := tl (faults w)\<rparr>"
  by (cases w) (simp add: next_fault_def split: list.splits)

text \<open>
  Claim C6. A request is about to send its conditional update, with the event \<open>ev\<close> it
  read, and the table now holds another value of \<open>registered\<close> than the one read, so the
  guard fails; the update itself is served. Then its step ends the request with
  \<^verbatim>\<open>INSUFFICIENT_CAPACITY\<close>. The step sends this one store operation and no other: the
  table is as it was and exactly one entry of the fault schedule is consumed. Under
  every later schedule the request stays finished with this response, and a step of
  it changes nothing, neither the table nor the fault schedule: there is no second
  read and no second update.
\<close>

theorem failed_guard_is_terminal:
  assumes "i < length (procs s)"
    and "procs s ! i = (en, req, CapacityReserving (eid, email, name, gs) ev n)"
    and "\<not> fst (next_fault (sys_world s))"
    and "event_in (table (sys_world s)) eid = Some a"
    and "registered (a_capacity a) \<noteq> registered (capacity ev)"
  shows "procs (sys_step i s) ! i =
           (en, req, Finished (errorResponse 400 ''INSUFFICIENT_CAPACITY''
                                 ''Not enough spots available for group size'')) \<and>
         sys_world (sys_step i s) = (sys_world s)\<lparr>faults := tl (faults (sys_world s))\<rparr> \<and>
         (\<forall>sched. procs (run_schedule sched (sys_step i s)) ! i = procs (sys_step i s) ! i \<and>
                  sys_step i (run_schedule sched (sys_step i s))
                    = run_schedule sched (sys_step i s))"
proof -
  let ?r = "errorResponse 400 ''INSUFFICIENT_CAPACITY'' ''Not enough spots available for group size''"
  let ?w' = "(sys_world s)\<lparr>faults := tl (faults (sys_world s))\<rparr>"
  from assms(3) have nf: "next_fault (sys_world s) = (False, ?w')"
    using next_fault_snd [of "sys_world s"] by (cases "next_fault (sys_world s)") simp
  from assms(4,5) have "update_registered (''EVENT#'' @ eid, ''METADATA'') (registered (capacity ev)) n
                          (table ?w') = None"
    by (auto simp: update_registered_None_iff event_in_def split: option.splits item.splits)
  with nf have st: "proc_step en req (CapacityReserving (eid, email, name, gs) ev n) (sys_world s)
                 = (Finished ?r, ?w')"
    by (simp add: send_UpdateItem_def register_response_def)
  with assms(1,2) have p: "procs (sys_step i s) ! i = (en, req, Finished ?r)"
    and w: "sys_world (sys_step i s) = ?w'"
    and l: "i < length (procs (sys_step i s))"
    by (simp_all add: sys_step_def)
  have "procs (run_schedule sched (sys_step i s)) ! i = procs (sys_step i s) ! i \<and>
        sys_step i (run_schedule sched (sys_step i s)) = run_schedule sched (sys_step i s)"
    for sched
  proof -
    from finished_run_schedule [OF l p]
    have f: "procs (run_schedule sched (sys_step i s)) ! i = (en, req, Finished ?r)" .
    from l have "i < length (procs (run_schedule sched (sys_step i s)))"
      by (simp add: run_schedule_length)
    from finished_step_idle [OF this f] f p show ?thesis by simp
  qed
  with p w show ?thesis by blast
qed

theorem failed_guard_is_terminal_witness:
  "(1::nat) < length (procs (run_schedule [0, 0, 0, 1, 1, 1, 0] last_place_race_traced)) \<and>
   procs (run_schedule [0, 0, 0, 1, 1, 1, 0] last_place_race_traced) ! 1 =
     (sample_env ''reg_2'', sample_request ''1'' ''bob@example.com'' ''Bob'' 1,
      CapacityReserving (''1'', units ''bob@example.com'', units ''Bob'', 1)
        (sample_event ''1'' ''technology'' 1 0) 1) \<and>
   sys_world (run_schedule [0, 0, 0, 1, 1, 1, 0] last_place_race_traced) =
     \<lparr>table = [EventItem ''EVENT#1'' (sample_attrs ''technology'' 1 1)],
      faults = [False, True]\<rparr> \<and>
   procs (sys_step 1 (run_schedule [0, 0, 0, 1, 1, 1, 0] last_place_race_traced)) ! 1 =
     (sample_env ''reg_2'', sample_request ''1'' ''bob@example.com'' ''Bob'' 1,
      Finished (errorResponse 400 ''INSUFFICIENT_CAPACITY''
                  ''Not enough spots available for group size'')) \<and>
   sys_world (sys_step 1 (run_schedule [0, 0, 0, 1, 1, 1, 0] last_place_race_traced)) =
     \<lparr>table = [EventItem ''EVENT#1'' (sample_attrs ''technology'' 1 1)], faults = [True]\<rparr> \<and>
   sys_world (run_schedule [1, 1, 1]
                (sys_step 1 (run_schedule [0, 0, 0, 1, 1, 1, 0] last_place_race_traced))) =
     \<lparr>table = [EventItem ''EVENT#1'' (sample_attrs ''technology'' 1 1)], faults = [True]\<rparr>"
proof -
  let ?s = "run_schedule [0, 0, 0, 1, 1, 1, 0] last_place_race_traced"
  have h1: "(1::nat) < length (procs ?s)" by code_simp
  have h2: "procs ?s ! 1 =
     (sample_env ''reg_2'', sample_request ''1'' ''bob@example.com'' ''Bob'' 1,
      CapacityReserving (''1'', units ''bob@example.com'', units ''Bob'', 1)
        (sample_event ''1'' ''technology'' 1 0) 1)"
    by code_simp
  have w: "sys_world ?s =
     \<lparr>table = [EventItem ''EVENT#1'' (sample_attrs ''technology'' 1 1)],
      faults = [False, True]\<rparr>"
    by code_simp
  have h3: "\<not> fst (next_fault (sys_world ?s))"
    unfolding w by (simp add: next_fault_def)
  have h4: "event_in (table (sys_world ?s)) ''1'' = Some (sample_attrs ''technology'' 1 1)"
    unfolding w by (simp add: event_in_def lookup_item_def item_key_def)
  have h5: "registered (a_capacity (sample_attrs ''technology'' 1 1))
              \<noteq> registered (capacity (sample_event ''1'' ''technology'' 1 0))"
    by (simp add: sample_attrs_def sample_event_def)
  have r: "sys_world (run_schedule [1, 1, 1] (sys_step 1 ?s)) =
     \<lparr>table = [EventItem ''EVENT#1'' (sample_attrs ''technology'' 1 1)], faults = [True]\<rparr>"
    by code_simp
  from failed_guard_is_terminal [OF h1 h2 h3 h4 h5]
  have c1: "procs (sys_step 1 ?s) ! 1 =
     (sample_env ''reg_2'', sample_request ''1'' ''bob@example.com'' ''Bob'' 1,
      Finished (errorResponse 400 ''INSUFFICIENT_CAPACITY''
                  ''Not enough spots available for group size''))"
    and c2: "sys_world (sys_step 1 ?s) = (sys_world ?s)\<lparr>faults := tl (faults (sys_world ?s))\<rparr>"
    by blast+
  have c2': "sys_world (sys_step 1 ?s) =
     \<lparr>table = [EventItem ''EVENT#1'' (sample_attrs ''technology'' 1 1)], faults = [True]\<rparr>"
    unfolding c2 w by simp
  show ?thesis by (intro conjI h1 h2 w c1 c2' r)
qed

section \<open>The duplicate check looks at one record only\<close>

text \<open>The query of the duplicate check, spelled out: only the first record in sort-key order counts.\<close>

lemma duplicate_found_first:
  "duplicate_found tbl eid email =
     (case sort_key SK (registrations_of (''EVENT#'' @ eid) tbl) of
        [] \<Rightarrow> False
      | i # rest \<Rightarrow> filter_email email i)"
  by (simp add: duplicate_found_def query_items_def registrations_of_def split: list.splits)

text \<open>
  Claim C10. Bob and then Ann register for event 1, one after the other; the table
  then holds Bob's record under \<^verbatim>\<open>REGISTRATION#reg_1\<close> and Ann's under
  \<^verbatim>\<open>REGISTRATION#reg_2\<close>. For Ann's email the duplicate check answers false, since the
  one record its query evaluates is Bob's, and a further request of Ann is accepted:
  the table ends with two records for her.
\<close>

theorem duplicate_missed_behind_first_record:
  "table bob_then_ann =
     [EventItem ''EVENT#1'' (sample_attrs ''technology'' 10 2),
      RegistrationItem ''EVENT#1'' ''reg_1''
        \<lparr>r_attendeeEmail = units ''bob@example.com'', r_attendeeName = units ''Bob'', r_groupSize = 1,
         r_registeredAt = ''2025-01-01T00:00:00.000Z''\<rparr>,
      RegistrationItem ''EVENT#1'' ''reg_2''
        \<lparr>r_attendeeEmail = units ''ann@example.com'', r_attendeeName = units ''Ann'', r_groupSize = 1,
         r_registeredAt = ''2025-01-01T00:00:00.000Z''\<rparr>] \<and>
   fst (checkDuplicateRegistration ''1'' (units ''ann@example.com'') bob_then_ann) = Inr False \<and>
   statusCode (fst (registerEventHandler (sample_env ''reg_3'')
                      (sample_request ''1'' ''ann@example.com'' ''Ann'' 1) bob_then_ann)) = 200 \<and>
   table (snd (registerEventHandler (sample_env ''reg_3'')
                 (sample_request ''1'' ''ann@example.com'' ''Ann'' 1) bob_then_ann)) =
     [EventItem ''EVENT#1'' (sample_attrs ''technology'' 10 3),
      RegistrationItem ''EVENT#1'' ''reg_1''
        \<lparr>r_attendeeEmail = units ''bob@example.com'', r_attendeeName = units ''Bob'', r_groupSize = 1,
         r_registeredAt = ''2025-01-01T00:00:00.000Z''\<rparr>,
      RegistrationItem ''EVENT#1'' ''reg_2''
        \<lparr>r_attendeeEmail = units ''ann@example.com'', r_attendeeName = units ''Ann'', r_groupSize = 1,
         r_registeredAt = ''2025-01-01T00:00:00.000Z''\<rparr>,
      RegistrationItem ''EVENT#1'' ''reg_3''
        \<lparr>r_attendeeEmail = units ''ann@example.com'', r_attendeeName = units ''Ann'', r_groupSize = 1,
         r_registeredAt = ''2025-01-01T00:00:00.000Z''\<rparr>]"
  by code_simp

section \<open>The step model and the handler\<close>

text \<open>
  Run alone, the five steps of a request compute what \<^verbatim>\<open>registerEventHandler\<close> computes:
  the same response and the same world.
\<close>

lemma run_alone_eq:
  "run_alone en req w = (case registerEventHandler en req w of (r, w') \<Rightarrow> (Finished r, w'))"
  unfolding run_alone_def registerEventHandler_def registerForEvent_def
  by (auto split: sum.splits prod.splits option.splits if_splits simp: Let_def)

text \<open>A request run alone is the schedule of five steps of the one request.\<close>

lemma sys_step_single:
  "sys_step 0 \<lparr>sys_world = w, procs = [(en, req, p)]\<rparr> =
     \<lparr>sys_world = snd (proc_step en req p w), procs = [(en, req, fst (proc_step en req p w))]\<rparr>"
  by (simp add: sys_step_def split: prod.splits)

lemma run_alone_schedule:
  "sys_world (run_schedule [0, 0, 0, 0, 0] (initial w [(en, req)])) = snd (run_alone en req w)"
  by (simp add: run_alone_def initial_def sys_step_single case_prod_beta)

section \<open>A failed registration write\<close>

lemma registerForEvent_put_fails:
  assumes "faults w = [False, False, True]"
    and "event_in (table w) eid = Some a"
    and "registered (a_capacity a) + gs \<le> cap_max (a_capacity a)"
  shows "\<exists>tbl'. registerForEvent en eid email name gs w
                  = (Inl TransportError, \<lparr>table = tbl', faults = []\<rparr>) \<and>
               update_registered (''EVENT#'' @ eid, ''METADATA'') (registered (a_capacity a))
                  (registered (a_capacity a) + gs) (table w)
                  = Some (a\<lparr>a_capacity := (a_capacity a)\<lparr>registered := registered (a_capacity a) + gs\<rparr>\<rparr>, tbl')"
proof -
  from assms(2) obtain pk where l: "lookup_item (table w) (''EVENT#'' @ eid, ''METADATA'') = Some (EventItem pk a)"
    by (auto simp: event_in_def split: option.splits item.splits)
  from update_registered_Some [OF l refl, of "registered (a_capacity a) + gs"]
  obtain tbl' where u: "update_registered (''EVENT#'' @ eid, ''METADATA'') (registered (a_capacity a))
                  (registered (a_capacity a) + gs) (table w)
                  = Some (a\<lparr>a_capacity := (a_capacity a)\<lparr>registered := registered (a_capacity a) + gs\<rparr>\<rparr>, tbl')"
    by blast
  have w: "w = \<lparr>table = table w, faults = [False, False, True]\<rparr>"
    using assms(1) by (cases w) simp
  have "registerForEvent en eid email name gs \<lparr>table = table w, faults = [False, False, True]\<rparr>
                  = (Inl TransportError, \<lparr>table = tbl', faults = []\<rparr>)"
    using assms(2,3) u
    by (simp add: registerForEvent_def getEvent_eq next_fault_def Let_def event_of_def
          send_UpdateItem_def send_PutItem_def)
  with w u show ?thesis by metis
qed

text \<open>
  Claim C9. A register request passes validation, the event exists, the duplicate
  check finds nothing and the group fits; the first four store operations are served
  and the fifth, the write of the registration record, fails. Then the response is
  \<^verbatim>\<open>INTERNAL_ERROR\<close>, the event keeps its incremented \<open>registered\<close> (by the group size),
  and the registration records of the table are those from before: the capacity is
  spent and no record exists for it.
\<close>

theorem failed_record_write_keeps_increment:
  assumes "validate_request req = Inr (eid, email, name, gs)"
    and "faults w = [False, False, False, False, True]"
    and "event_in (table w) eid = Some a"
    and "\<not> duplicate_found (table w) eid email"
    and "registered (a_capacity a) + gs \<le> cap_max (a_capacity a)"
  shows "fst (registerEventHandler en req w) = internal_error \<and>
         event_in (table (snd (registerEventHandler en req w))) eid
           = Some (a\<lparr>a_capacity := (a_capacity a)\<lparr>registered := registered (a_capacity a) + gs\<rparr>\<rparr>) \<and>
         registration_items (table (snd (registerEventHandler en req w)))
           = registration_items (table w)"
proof -
  let ?a' = "a\<lparr>a_capacity := (a_capacity a)\<lparr>registered := registered (a_capacity a) + gs\<rparr>\<rparr>"
  let ?w2 = "\<lparr>table = table w, faults = [False, False, True]\<rparr>"
  from assms(1) have gs: "1 \<le> gs" by (rule validate_request_groupSize)
  have f2: "faults ?w2 = [False, False, True]" by simp
  have e2: "event_in (table ?w2) eid = Some a" using assms(3) by simp
  from registerForEvent_put_fails [OF f2 e2, of gs en email name] assms(5) obtain tbl' where
    r: "registerForEvent en eid email name gs ?w2 = (Inl TransportError, \<lparr>table = tbl', faults = []\<rparr>)"
    and u: "update_registered (''EVENT#'' @ eid, ''METADATA'') (registered (a_capacity a))
              (registered (a_capacity a) + gs) (table w) = Some (?a', tbl')"
    by auto
  have w: "w = \<lparr>table = table w, faults = [False, False, False, False, True]\<rparr>"
    using assms(2) by (cases w) simp
  have h: "registerEventHandler en req \<lparr>table = table w, faults = [False, False, False, False, True]\<rparr>
             = (internal_error, \<lparr>table = tbl', faults = []\<rparr>)"
    using assms(1,3,4,5) gs r
    by (simp add: registerEventHandler_def getEvent_eq checkDuplicate_eq next_fault_def
          event_of_def register_response_def)
  with w have h': "registerEventHandler en req w = (internal_error, \<lparr>table = tbl', faults = []\<rparr>)"
    by metis
  from update_registered_attrs [OF u] have "event_in tbl' eid = Some ?a'"
    by (auto simp: event_in_def)
  with h' update_registered_registration_items [OF u] show ?thesis by simp
qed


theorem failed_record_write_keeps_increment_witness:
  "validate_request (sample_request ''1'' ''ann@example.com'' ''Ann'' 2)
     = Inr (''1'', units ''ann@example.com'', units ''Ann'', 2) \<and>
   faults write_fails_world = [False, False, False, False, True] \<and>
   event_in (table write_fails_world) ''1'' = Some (sample_attrs ''technology'' 10 8) \<and>
   \<not> duplicate_found (table write_fails_world) ''1'' (units ''ann@example.com'') \<and>
   fst (registerEventHandler (sample_env ''reg_1'')
          (sample_request ''1'' ''ann@example.com'' ''Ann'' 2) write_fails_world) = internal_error \<and>
   event_in (table (snd (registerEventHandler (sample_env ''reg_1'')
          (sample_request ''1'' ''ann@example.com'' ''Ann'' 2) write_fails_world))) ''1''
     = Some (sample_attrs ''technology'' 10 10) \<and>
   registration_items (table (snd (registerEventHandler (sample_env ''reg_1'')
          (sample_request ''1'' ''ann@example.com'' ''Ann'' 2) write_fails_world))) = []"
proof -
  have v: "validate_request (sample_request ''1'' ''ann@example.com'' ''Ann'' 2)
             = Inr (''1'', units ''ann@example.com'', units ''Ann'', 2)"
    by (rule sample_request_valid) (simp_all add: valid_sample_email sample_name_trim sample_name_again_trim)
  have f: "faults write_fails_world = [False, False, False, False, True]"
    by (simp add: write_fails_world_def)
  have e: "event_in (table write_fails_world) ''1'' = Some (sample_attrs ''technology'' 10 8)"
    by (simp add: write_fails_world_def event_in_def lookup_item_def item_key_def)
  have d: "\<not> duplicate_found (table write_fails_world) ''1'' (units ''ann@example.com'')"
    by (simp add: write_fails_world_def duplicate_found_def query_items_def)
  have c: "registered (a_capacity (sample_attrs ''technology'' 10 8)) + 2
             \<le> cap_max (a_capacity (sample_attrs ''technology'' 10 8))"
    by (simp add: sample_attrs_def)
  have r: "registration_items (table write_fails_world) = []"
    by (simp add: write_fails_world_def registration_items_def)
  from v f e d failed_record_write_keeps_increment [OF v f e d c, of "sample_env ''reg_1''"] r
  show ?thesis by (simp add: sample_attrs_def)
qed

section \<open>Records stay accounted\<close>

lemma lookup_item_in_set: "lookup_item tbl k = Some i \<Longrightarrow> i \<in> set tbl \<and> item_key i = k"
  by (auto simp: lookup_item_def find_Some_iff)

lemma set_put_item: "set (put_item x tbl) \<subseteq> insert x (set tbl)"
  by (induction tbl) auto

lemma set_update_registered:
  "update_registered k cur new tbl = Some (a', tbl') \<Longrightarrow> i \<in> set tbl' \<Longrightarrow>
   i \<in> set tbl \<or> (\<exists>pk. i = EventItem pk a')"
  by (induction tbl arbitrary: tbl')
     (auto simp: Let_def split: item.splits option.splits if_splits)

lemma grows_refl [simp]: "grows tbl tbl"
  by (simp add: grows_def)

lemma grows_same_events: "(\<And>eid. event_in tbl' eid = event_in tbl eid) \<Longrightarrow> grows tbl tbl'"
  by (simp add: grows_def)

lemma pc_accounted_grows:
  assumes "grows tbl tbl'" and "pc_accounted tbl p"
  shows "pc_accounted tbl' p"
proof (cases p)
  case (RegistrationRecording args upd)
  obtain eid email name gs where args: "args = (eid, email, name, gs)" by (cases args) auto
  show ?thesis
  proof (cases "event_in tbl' eid")
    case None
    with RegistrationRecording args show ?thesis by simp
  next
    case (Some a')
    with assms(1) obtain a where "event_in tbl eid = Some a"
      and "registered (a_capacity a) \<le> registered (a_capacity a')"
      by (auto simp: grows_def)
    with assms(2) RegistrationRecording args Some show ?thesis by simp
  qed
next
  case (DuplicateChecking args ev)
  with assms(2) show ?thesis by (cases args) simp
next
  case (CapacityReading args)
  with assms(2) show ?thesis by (cases args) simp
next
  case (CapacityReserving args ev n)
  with assms(2) show ?thesis by (cases args) simp
qed simp_all

lemma records_accounted_put:
  assumes "records_accounted tbl"
    and "\<And>a. event_in tbl eid = Some a \<Longrightarrow> 1 \<le> registered (a_capacity a)"
  shows "records_accounted (put_item (RegistrationItem (''EVENT#'' @ eid) rid r) tbl)"
proof -
  let ?x = "RegistrationItem (''EVENT#'' @ eid) rid r"
  have "item_nonnegative i \<and> item_accounted (put_item ?x tbl) i" if "i \<in> set (put_item ?x tbl)" for i
  proof -
    from that set_put_item have "i = ?x \<or> i \<in> set tbl" by fastforce
    then show ?thesis
    proof
      assume "i = ?x"
      with assms(2) show ?thesis
        by (auto simp: put_item_lookup_metadata event_in_def split: option.splits item.splits)
    next
      assume "i \<in> set tbl"
      with assms(1) have "item_nonnegative i" and "item_accounted tbl i"
        by (simp_all add: records_accounted_def list_all_iff)
      then show ?thesis
        by (cases i) (simp_all add: put_item_lookup_metadata)
    qed
  qed
  then show ?thesis by (simp add: records_accounted_def list_all_iff)
qed

lemma records_accounted_update:
  assumes "records_accounted tbl"
    and "update_registered k cur new tbl = Some (a', tbl')"
    and "cur < new"
  shows "records_accounted tbl' \<and> 1 \<le> registered (a_capacity a')"
proof -
  from update_registered_attrs [OF assms(2)] obtain pk a where
    l: "lookup_item tbl k = Some (EventItem pk a)" and c: "registered (a_capacity a) = cur"
    and a': "a' = a\<lparr>a_capacity := (a_capacity a)\<lparr>registered := new\<rparr>\<rparr>"
    and l': "lookup_item tbl' k = Some (EventItem pk a')"
    by blast
  from l have "EventItem pk a \<in> set tbl" using lookup_item_in_set by blast
  with assms(1) have "0 \<le> registered (a_capacity a)"
    by (auto simp: records_accounted_def list_all_iff)
  with c assms(3) a' have n: "1 \<le> registered (a_capacity a')" by simp
  have "item_nonnegative i \<and> item_accounted tbl' i" if "i \<in> set tbl'" for i
  proof -
    from set_update_registered [OF assms(2) that]
    show ?thesis
    proof
      assume m: "i \<in> set tbl"
      with assms(1) have nn: "item_nonnegative i" and acc: "item_accounted tbl i"
        by (simp_all add: records_accounted_def list_all_iff)
      show ?thesis
      proof (cases i)
        case (EventItem pk2 a2)
        with nn show ?thesis by simp
      next
        case (RegistrationItem pk2 rid r)
        show ?thesis
        proof (cases "(pk2, ''METADATA'') = k")
          case True
          with l' n RegistrationItem show ?thesis by simp
        next
          case False
          with update_registered_other [OF assms(2), of "(pk2, ''METADATA'')"] acc RegistrationItem
          show ?thesis by simp
        qed
      qed
    next
      assume "\<exists>pk. i = EventItem pk a'"
      with n show ?thesis by auto
    qed
  qed
  with n show ?thesis by (simp add: records_accounted_def list_all_iff)
qed

lemma grows_update:
  assumes "update_registered (''EVENT#'' @ eid, ''METADATA'') cur new tbl = Some (a', tbl')"
    and "cur \<le> new"
  shows "grows tbl tbl'"
  unfolding grows_def
proof (intro allI impI)
  fix e b'
  assume b: "event_in tbl' e = Some b'"
  from update_registered_attrs [OF assms(1)] obtain pk a where
    l: "lookup_item tbl (''EVENT#'' @ eid, ''METADATA'') = Some (EventItem pk a)"
    and c: "registered (a_capacity a) = cur"
    and a': "a' = a\<lparr>a_capacity := (a_capacity a)\<lparr>registered := new\<rparr>\<rparr>"
    and l': "lookup_item tbl' (''EVENT#'' @ eid, ''METADATA'') = Some (EventItem pk a')"
    by blast
  show "\<exists>a. event_in tbl e = Some a \<and> registered (a_capacity a) \<le> registered (a_capacity b')"
  proof (cases "e = eid")
    case True
    with b l l' c a' assms(2) show ?thesis by (auto simp: event_in_def)
  next
    case False
    with update_registered_other [OF assms(1), of "(''EVENT#'' @ e, ''METADATA'')"] b
    show ?thesis by (simp add: event_in_def)
  qed
qed


lemma proc_step_accounted:
  assumes "proc_step en req p w = (p', w')" and "records_accounted (table w)"
    and "pc_accounted (table w) p"
  shows "records_accounted (table w') \<and> pc_accounted (table w') p' \<and> grows (table w) (table w')"
proof (cases p)
  case Validating
  show ?thesis
  proof (cases "validate_request req")
    case (Inl r)
    with Validating assms show ?thesis by auto
  next
    case (Inr a)
    obtain eid email name gs where a: "a = (eid, email, name, gs)" by (cases a) auto
    with Inr have "1 \<le> gs" using validate_request_groupSize by blast
    moreover have "table (snd (getEvent eid w)) = table w" by simp
    ultimately show ?thesis
      using Validating Inr a assms
      by (cases "getEvent eid w") (auto split: sum.splits option.splits)
  qed
next
  case (DuplicateChecking a ev)
  obtain eid email name gs where a: "a = (eid, email, name, gs)" by (cases a) auto
  have "table (snd (checkDuplicateRegistration eid email w)) = table w" by simp
  with DuplicateChecking a assms show ?thesis
    by (cases "checkDuplicateRegistration eid email w") (auto split: sum.splits if_splits)
next
  case (CapacityReading a)
  obtain eid email name gs where a: "a = (eid, email, name, gs)" by (cases a) auto
  have "table (snd (getEvent eid w)) = table w" by simp
  with CapacityReading a assms show ?thesis
    by (cases "getEvent eid w") (auto simp: Let_def split: sum.splits option.splits if_splits)
next
  case (CapacityReserving a ev n)
  obtain eid email name gs where a: "a = (eid, email, name, gs)" by (cases a) auto
  obtain res w2 where u: "send_UpdateItem (''EVENT#'' @ eid, ''METADATA'') (registered (capacity ev)) n w = (res, w2)"
    by (cases "send_UpdateItem (''EVENT#'' @ eid, ''METADATA'') (registered (capacity ev)) n w") auto
  from u show ?thesis
  proof (cases rule: send_UpdateItem_cases)
    case (unchanged e)
    with CapacityReserving a u assms show ?thesis by (auto split: if_splits)
  next
    case (updated a')
    from assms(3) CapacityReserving a have lt: "registered (capacity ev) < n" by simp
    from records_accounted_update [OF assms(2) updated(2) lt]
    have ra: "records_accounted (table w2)" and one: "1 \<le> registered (a_capacity a')" by auto
    from update_registered_attrs [OF updated(2)] have "event_in (table w2) eid = Some a'"
      by (auto simp: event_in_def)
    with one have "pc_accounted (table w2) (RegistrationRecording (eid, email, name, gs) a')"
      by simp
    moreover from grows_update [OF updated(2)] lt have "grows (table w) (table w2)" by simp
    ultimately show ?thesis
      using ra CapacityReserving a u updated(1) assms(1) by auto
  qed
next
  case (RegistrationRecording a upd)
  obtain eid email name gs where a: "a = (eid, email, name, gs)" by (cases a) auto
  define x where "x = RegistrationItem (''EVENT#'' @ eid) (env_registrationId en)
                \<lparr>r_attendeeEmail = email, r_attendeeName = name,
                 r_groupSize = gs, r_registeredAt = env_registeredAt en\<rparr>"
  obtain res w3 where u: "send_PutItem x w = (res, w3)" by (cases "send_PutItem x w") auto
  from u show ?thesis
  proof (cases rule: send_PutItem_cases)
    case (unchanged e)
    with RegistrationRecording a u assms show ?thesis by (auto simp: x_def)
  next
    case stored
    from assms(3) RegistrationRecording a
    have "\<And>b. event_in (table w) eid = Some b \<Longrightarrow> 1 \<le> registered (a_capacity b)" by simp
    from records_accounted_put [OF assms(2) this] stored(2)
    have "records_accounted (table w3)" by (simp add: x_def)
    moreover from stored(2) have "grows (table w) (table w3)"
      by (simp add: x_def grows_same_events)
    ultimately show ?thesis
      using RegistrationRecording a u stored(1) assms(1) by (auto simp: x_def)
  qed
next
  case (Finished r)
  with assms show ?thesis by auto
qed

lemma sys_step_accounted:
  assumes "sys_accounted s"
  shows "sys_accounted (sys_step i s)"
proof (cases "i < length (procs s)")
  case False
  with assms show ?thesis by (simp add: sys_step_def)
next
  case True
  obtain en req p where pi: "procs s ! i = (en, req, p)" by (cases "procs s ! i") auto
  obtain p' w' where st: "proc_step en req p (sys_world s) = (p', w')"
    by (cases "proc_step en req p (sys_world s)") auto
  from True pi have "(en, req, p) \<in> set (procs s)" by (metis nth_mem)
  with assms have ok: "pc_accounted (table (sys_world s)) p"
    and ra: "records_accounted (table (sys_world s))"
    and all: "\<forall>(en, req, q) \<in> set (procs s). pc_accounted (table (sys_world s)) q"
    by (auto simp: sys_accounted_def list_all_iff)
  from proc_step_accounted [OF st ra ok] have
    r': "records_accounted (table w')" and p': "pc_accounted (table w') p'"
    and g: "grows (table (sys_world s)) (table w')"
    by auto
  have "pc_accounted (table w') q" if "(e, r, q) \<in> set ((procs s)[i := (en, req, p')])" for e r q
  proof -
    from that have "(e, r, q) = (en, req, p') \<or> (e, r, q) \<in> set (procs s)"
      using set_update_subset_insert by fastforce
    then show ?thesis
      using p' all pc_accounted_grows [OF g] by auto
  qed
  with r' True pi st show ?thesis
    by (auto simp: sys_accounted_def sys_step_def list_all_iff)
qed

lemma run_schedule_accounted: "sys_accounted s \<Longrightarrow> sys_accounted (run_schedule sched s)"
  by (induction sched arbitrary: s) (simp_all add: sys_step_accounted)

text \<open>From a table whose records are accounted, every interleaving leads to such a table.\<close>

lemma records_accounted_reachable:
  assumes "records_accounted (table w)"
  shows "records_accounted (table (sys_world (run_schedule sched (initial w reqs))))"
proof -
  from assms have "sys_accounted (initial w reqs)"
    by (auto simp: sys_accounted_def initial_def list_all_iff)
  from run_schedule_accounted [OF this] show ?thesis by (simp add: sys_accounted_def)
qed

text \<open>A seeded table has event items only, with \<open>registered \<ge> 0\<close>.\<close>

lemma seeded_accounted:
  "list_all (\<lambda>i. \<not> is_registration i \<and> item_nonnegative i) tbl \<Longrightarrow> records_accounted tbl"
proof -
  assume a: "list_all (\<lambda>i. \<not> is_registration i \<and> item_nonnegative i) tbl"
  have "item_accounted tbl i" if "i \<in> set tbl" for i
    using a that by (cases i) (auto simp: list_all_iff)
  with a show ?thesis by (auto simp: records_accounted_def list_all_iff)
qed

lemma registerEventHandler_accounted:
  assumes "records_accounted (table w)"
  shows "records_accounted (table (snd (registerEventHandler en req w)))"
proof -
  have "snd (registerEventHandler en req w) = snd (run_alone en req w)"
    by (simp add: run_alone_eq split: prod.splits)
  with records_accounted_reachable [OF assms, of "[0, 0, 0, 0, 0]" "[(en, req)]"]
  show ?thesis by (simp only: run_alone_schedule)
qed

section \<open>Two sequential requests with the same email\<close>

lemma prefix_registration_SK [simp]: "prefix ''REGISTRATION#'' (''REGISTRATION#'' @ rid)"
  by (simp add: prefix_def)

lemma put_item_registrations_fresh:
  "registrations_of pk tbl = [] \<Longrightarrow>
   registrations_of pk (put_item (RegistrationItem pk rid r) tbl) = [RegistrationItem pk rid r]"
  by (induction tbl) (auto simp: registrations_of_def item_key_def split: if_splits)

lemma registrations_of_registration:
  "i \<in> set (registrations_of pk tbl) \<Longrightarrow> i \<in> set tbl \<and> PK i = pk \<and> is_registration i"
  by (cases i) (auto simp: registrations_of_def)

lemma records_accounted_no_records:
  assumes "records_accounted tbl" and "event_in tbl eid = Some a"
    and "registered (a_capacity a) = 0"
  shows "registrations_of (''EVENT#'' @ eid) tbl = []"
proof (rule ccontr)
  assume "registrations_of (''EVENT#'' @ eid) tbl \<noteq> []"
  then obtain i where i: "i \<in> set (registrations_of (''EVENT#'' @ eid) tbl)"
    by (meson last_in_set)
  then have m: "i \<in> set tbl" and pk: "PK i = ''EVENT#'' @ eid" and reg: "is_registration i"
    using registrations_of_registration by blast+
  from assms(1) m have "item_accounted tbl i" by (simp add: records_accounted_def list_all_iff)
  with pk reg assms(2,3) show False
    by (cases i) (auto simp: event_in_def split: option.splits item.splits)
qed

text \<open>
  Claim C4. An event has \<open>max = 1\<close> and \<open>registered = 0\<close>, in a table whose records are
  accounted (as in every table that requests lead to from a seeded one, see
  \<open>records_accounted_reachable\<close>). Two requests with the same email, both passing
  validation, the first for one place, run one after the other without transport
  fault. Then the first is accepted, and on the world it leaves behind, whatever its
  registration id and timestamp, the second is rejected with \<^verbatim>\<open>DUPLICATE_REGISTRATION\<close>
  and changes nothing.
\<close>

theorem sequential_duplicate_rejected:
  assumes "validate_request req1 = Inr (eid, email, name1, 1)"
    and "validate_request req2 = Inr (eid, email, name2, gs2)"
    and "faults w = []"
    and "event_in (table w) eid = Some a"
    and "cap_max (a_capacity a) = 1" and "registered (a_capacity a) = 0"
    and "records_accounted (table w)"
  shows "\<exists>w1. registerEventHandler en1 req1 w =
                (successResponse
                   (RegisterSuccess (env_registrationId en1)
                      (event_of eid (a\<lparr>a_capacity := (a_capacity a)\<lparr>registered := 1\<rparr>\<rparr>))
                      \<lparr>att_email = email, att_name = name1, att_groupSize = 1,
                       att_registeredAt = env_registeredAt en1\<rparr>), w1) \<and>
              registerEventHandler en2 req2 w1 =
                (errorResponse 400 ''DUPLICATE_REGISTRATION''
                   ''This email is already registered for this event'', w1)"
proof -
  let ?pk = "''EVENT#'' @ eid"
  let ?a' = "a\<lparr>a_capacity := (a_capacity a)\<lparr>registered := 1\<rparr>\<rparr>"
  let ?x = "RegistrationItem ?pk (env_registrationId en1)
              \<lparr>r_attendeeEmail = email, r_attendeeName = name1, r_groupSize = 1,
               r_registeredAt = env_registeredAt en1\<rparr>"
  from records_accounted_no_records [OF assms(7,4,6)]
  have none: "registrations_of ?pk (table w) = []" .
  then have nd: "\<not> duplicate_found (table w) eid email"
    by (simp add: duplicate_found_first)
  from assms(4) obtain pk where
    l: "lookup_item (table w) (?pk, ''METADATA'') = Some (EventItem pk a)"
    by (auto simp: event_in_def split: option.splits item.splits)
  from update_registered_Some [OF l assms(6), of 1]
  obtain tbl' where u: "update_registered (?pk, ''METADATA'') 0 1 (table w) = Some (?a', tbl')"
    by blast
  define w1 where "w1 = \<lparr>table = put_item ?x tbl', faults = []\<rparr>"
  have w: "w = \<lparr>table = table w, faults = []\<rparr>" using assms(3) by (cases w) simp
  have "registerEventHandler en1 req1 \<lparr>table = table w, faults = []\<rparr> =
          (successResponse
             (RegisterSuccess (env_registrationId en1) (event_of eid ?a')
                \<lparr>att_email = email, att_name = name1, att_groupSize = 1,
                 att_registeredAt = env_registeredAt en1\<rparr>), w1)"
    using assms(1,4,5,6) nd u
    by (simp add: registerEventHandler_def registerForEvent_def getEvent_eq checkDuplicate_eq
          next_fault_def event_of_def register_response_def send_UpdateItem_def
          send_PutItem_def Let_def w1_def)
  with w have first: "registerEventHandler en1 req1 w =
          (successResponse
             (RegisterSuccess (env_registrationId en1) (event_of eid ?a')
                \<lparr>att_email = email, att_name = name1, att_groupSize = 1,
                 att_registeredAt = env_registeredAt en1\<rparr>), w1)"
    by metis
  from update_registered_registrations [OF u, of ?pk] none
  have "registrations_of ?pk tbl' = []" by simp
  then have "registrations_of ?pk (table w1) = [?x]"
    by (simp add: w1_def put_item_registrations_fresh)
  then have dup: "duplicate_found (table w1) eid email"
    by (simp add: duplicate_found_first filter_email_def)
  from update_registered_attrs [OF u] have "event_in tbl' eid = Some ?a'"
    by (auto simp: event_in_def)
  then have ev: "event_in (table w1) eid = Some ?a'" by (simp add: w1_def)
  have "registerEventHandler en2 req2 w1 =
          (errorResponse 400 ''DUPLICATE_REGISTRATION''
             ''This email is already registered for this event'', w1)"
    using assms(2) dup ev
    by (simp add: registerEventHandler_def getEvent_eq checkDuplicate_eq next_fault_def w1_def)
  with first show ?thesis by blast
qed

theorem sequential_duplicate_rejected_witness:
  "validate_request (sample_request ''1'' ''ann@example.com'' ''Ann'' 1)
     = Inr (''1'', units ''ann@example.com'', units ''Ann'', 1) \<and>
   validate_request (sample_request ''1'' ''ann@example.com'' ''Ann again'' 3)
     = Inr (''1'', units ''ann@example.com'', units ''Ann again'', 3) \<and>
   faults (one_event_world 1 0) = [] \<and>
   event_in (table (one_event_world 1 0)) ''1'' = Some (sample_attrs ''technology'' 1 0) \<and>
   records_accounted (table (one_event_world 1 0)) \<and>
   (\<exists>w1. registerEventHandler (sample_env ''reg_1'')
            (sample_request ''1'' ''ann@example.com'' ''Ann'' 1) (one_event_world 1 0) =
            (successResponse
               (RegisterSuccess ''reg_1'' (sample_event ''1'' ''technology'' 1 1)
                  \<lparr>att_email = units ''ann@example.com'', att_name = units ''Ann'', att_groupSize = 1,
                   att_registeredAt = ''2025-01-01T00:00:00.000Z''\<rparr>), w1) \<and>
          registerEventHandler (sample_env ''reg_2'')
            (sample_request ''1'' ''ann@example.com'' ''Ann again'' 3) w1 =
            (errorResponse 400 ''DUPLICATE_REGISTRATION''
               ''This email is already registered for this event'', w1))"
proof -
  have v1: "validate_request (sample_request ''1'' ''ann@example.com'' ''Ann'' 1)
              = Inr (''1'', units ''ann@example.com'', units ''Ann'', 1)"
    by (rule sample_request_valid) (simp_all add: valid_sample_email sample_name_trim sample_name_again_trim)
  have v2: "validate_request (sample_request ''1'' ''ann@example.com'' ''Ann again'' 3)
              = Inr (''1'', units ''ann@example.com'', units ''Ann again'', 3)"
    by (rule sample_request_valid) (simp_all add: valid_sample_email sample_name_trim sample_name_again_trim)
  have f: "faults (one_event_world 1 0) = []" by (simp add: one_event_world_def)
  have e: "event_in (table (one_event_world 1 0)) ''1'' = Some (sample_attrs ''technology'' 1 0)"
    by (simp add: one_event_world_def event_in_def lookup_item_def item_key_def)
  have m: "cap_max (a_capacity (sample_attrs ''technology'' 1 0)) = 1"
    and z: "registered (a_capacity (sample_attrs ''technology'' 1 0)) = 0"
    by (simp_all add: sample_attrs_def)
  have ra: "records_accounted (table (one_event_world 1 0))"
    by (simp add: records_accounted_def one_event_world_def sample_attrs_def)
  from v1 v2 f e ra
    sequential_duplicate_rejected [OF v1 v2 f e m z ra, of "sample_env ''reg_1''" "sample_env ''reg_2''"]
  show ?thesis
    by (simp add: sample_env_def event_of_def sample_attrs_def sample_event_def)
qed

end
